theory Spec2Isabelle
  imports Complex_Main "HOL-Library.Word"
begin

unbundle bit_operations_syntax

section \<open>The scene graph of Container.ts as a store of objects\<close>

text \<open>
  Containers and render groups are JavaScript objects that point at each other, so the
  model is an explicit store: a reference is a number, the store maps references to
  records, and every method takes the store and returns the updated one.  A field the
  source spells \<^verbatim>\<open>_name\<close> is spelled \<open>u_name\<close> here.  JavaScript numbers that
  hold coordinates, angles and alpha are modelled by \<open>real\<close>.
\<close>

type_synonym cref = nat
type_synonym gref = nat

subsection \<open>Matrix and ObservablePoint\<close>

text \<open>The six fields \<^verbatim>\<open>a b c d tx ty\<close> of Matrix.\<close>

record Matrix =
  m_a :: real
  m_b :: real
  m_c :: real
  m_d :: real
  m_tx :: real
  m_ty :: real

text \<open>
  Modelled from the spec: \<^verbatim>\<open>new Matrix()\<close> (maths/matrix/Matrix.ts is not among the
  sources).  The spec creates a node "with defaults (identity transform, ...)".
\<close>

definition newMatrix :: Matrix where
  "newMatrix = \<lparr>m_a = 1, m_b = 0, m_c = 0, m_d = 1, m_tx = 0, m_ty = 0\<rparr>"

text \<open>
  Modelled from the spec: \<^verbatim>\<open>Matrix.copyFrom\<close>, "copy the owning render group's world
  transform verbatim": all six fields of the target are overwritten by the source's.
\<close>

definition copyFrom :: "Matrix \<Rightarrow> Matrix \<Rightarrow> Matrix" where
  "copyFrom this other =
     this\<lparr>m_a := m_a other, m_b := m_b other, m_c := m_c other, m_d := m_d other,
          m_tx := m_tx other, m_ty := m_ty other\<rparr>"

text \<open>How a matrix moves a point: the usual reading of the six fields.\<close>

definition apply_matrix :: "Matrix \<Rightarrow> real \<times> real \<Rightarrow> real \<times> real" where
  "apply_matrix m p =
     (m_a m * fst p + m_c m * snd p + m_tx m, m_b m * fst p + m_d m * snd p + m_ty m)"

text \<open>
  Modelled from the spec: \<^verbatim>\<open>Matrix.appendFrom(a, b)\<close>, "world = rgTransform o
  groupWorld, matrix application order: apply rgTransform first, then groupWorld".  The
  target receives the product that applies \<open>a\<close> first and \<open>b\<close> second.
\<close>

definition appendFrom :: "Matrix \<Rightarrow> Matrix \<Rightarrow> Matrix \<Rightarrow> Matrix" where
  "appendFrom this x y =
     this\<lparr>m_a := m_a x * m_a y + m_b x * m_c y,
          m_b := m_a x * m_b y + m_b x * m_d y,
          m_c := m_c x * m_a y + m_d x * m_c y,
          m_d := m_c x * m_b y + m_d x * m_d y,
          m_tx := m_tx x * m_a y + m_ty x * m_c y + m_tx y,
          m_ty := m_tx x * m_b y + m_ty x * m_d y + m_ty y\<rparr>"

text \<open>
  An ObservablePoint: its identity (the source compares points with \<^verbatim>\<open>===\<close>) and its
  two coordinates.  The three shared defaults of the module come first.
\<close>

record ObservablePoint =
  pt_id :: nat
  pt_x :: real
  pt_y :: real

definition defaultSkew :: ObservablePoint where
  "defaultSkew = \<lparr>pt_id = 0, pt_x = 0, pt_y = 0\<rparr>"

definition defaultPivot :: ObservablePoint where
  "defaultPivot = \<lparr>pt_id = 1, pt_x = 0, pt_y = 0\<rparr>"

definition defaultScale :: ObservablePoint where
  "defaultScale = \<lparr>pt_id = 2, pt_x = 1, pt_y = 1\<rparr>"

subsection \<open>Container, RenderGroup and the store\<close>

text \<open>The view of a container: only what \<^verbatim>\<open>destroy\<close> touches.\<close>

record View =
  owner :: "cref option"
  viewDestroyed :: bool

record Container =
  u_updateFlags :: "4 word"
  isRenderGroupRoot :: bool
  renderGroup :: "gref option"
  didChange :: bool
  didViewUpdate :: bool
  children :: "cref list"
  parent :: "cref option"
  isSimple :: bool
  localTransform :: Matrix
  rgTransform :: Matrix
  u_worldTransform :: "Matrix option"
  destroyed :: bool
  u_position :: "ObservablePoint option"
  u_scale :: "ObservablePoint option"
  u_pivot :: "ObservablePoint option"
  u_skew :: "ObservablePoint option"
  u_cx :: real
  u_sx :: real
  u_cy :: real
  u_sy :: real
  u_rotation :: real
  localAlpha :: real
  rgAlpha :: real
  localVisibleRenderable :: "2 word"
  rgVisibleRenderable :: "2 word"
  view :: "View option"
  effects :: "nat list option"
  u_mask :: "nat option"
  u_filters :: "nat list option"
  sortableChildren :: bool
  sortDirty :: bool
  u_zIndex :: int

text \<open>
  The fields of RenderGroup that Container.ts reads or writes (\<^verbatim>\<open>root\<close>,
  \<^verbatim>\<open>worldTransform\<close>, \<^verbatim>\<open>renderGroupParent\<close>, \<^verbatim>\<open>renderGroupChildren\<close>,
  \<^verbatim>\<open>structureDidChange\<close>, \<^verbatim>\<open>proxyRenderable\<close>) and the group's own list of
  member nodes.
\<close>

record RenderGroup =
  root :: cref
  worldTransform :: Matrix
  renderGroupParent :: "gref option"
  renderGroupChildren :: "gref list"
  structureDidChange :: bool
  proxyRenderable :: "nat option"
  memberChildren :: "cref list"

text \<open>What a container emits, in the order of the \<^verbatim>\<open>ContainerEvents\<close> interface.\<close>

datatype event =
  Added cref
  | ChildAdded cref cref int
  | Removed cref
  | ChildRemoved cref cref int
  | Destroyed
  | DepthOfChildModified

text \<open>
  The store.  \<open>emitted\<close> is the log of \<^verbatim>\<open>emit\<close> calls, each with the emitting
  container; \<open>childUpdates\<close> and \<open>childViewUpdates\<close> are the logs of the calls of
  \<^verbatim>\<open>RenderGroup.onChildUpdate\<close> and \<^verbatim>\<open>RenderGroup.onChildViewUpdate\<close>, each with the
  notified group and the node; \<open>nextGroup\<close> is the reference the next
  \<^verbatim>\<open>new RenderGroup\<close> receives.
\<close>

record state =
  containers :: "cref \<Rightarrow> Container"
  groups :: "gref \<Rightarrow> RenderGroup"
  nextGroup :: gref
  emitted :: "(cref \<times> event) list"
  childUpdates :: "(gref \<times> cref) list"
  childViewUpdates :: "(gref \<times> cref) list"

definition upd_c :: "cref \<Rightarrow> (Container \<Rightarrow> Container) \<Rightarrow> state \<Rightarrow> state" where
  "upd_c c f s = s\<lparr>containers := (containers s)(c := f (containers s c))\<rparr>"

definition upd_g :: "gref \<Rightarrow> (RenderGroup \<Rightarrow> RenderGroup) \<Rightarrow> state \<Rightarrow> state" where
  "upd_g g f s = s\<lparr>groups := (groups s)(g := f (groups s g))\<rparr>"

definition emit :: "cref \<Rightarrow> event \<Rightarrow> state \<Rightarrow> state" where
  "emit c e s = s\<lparr>emitted := emitted s @ [(c, e)]\<rparr>"

subsection \<open>The worldTransform getter\<close>

text \<open>
  \<^verbatim>\<open>this._worldTransform ||= new Matrix()\<close>, then the copy or the composition when the
  node has a render group.  The getter returns the matrix object it keeps in
  \<^verbatim>\<open>_worldTransform\<close>; the model returns that matrix with the updated store.
\<close>

definition get_worldTransform :: "cref \<Rightarrow> state \<Rightarrow> Matrix \<times> state" where
  "get_worldTransform this s =
     (let n = containers s this;
          w0 = (case u_worldTransform n of None \<Rightarrow> newMatrix | Some w \<Rightarrow> w);
          w = (case renderGroup n of
                 None \<Rightarrow> w0
               | Some g \<Rightarrow>
                   if isRenderGroupRoot n then copyFrom w0 (worldTransform (groups s g))
                   else appendFrom w0 (rgTransform n) (worldTransform (groups s g)))
      in (w, upd_c this (\<lambda>n. n\<lparr>u_worldTransform := Some w\<rparr>) s))"

subsection \<open>Exceptions and JavaScript array primitives\<close>

text \<open>
  A JavaScript exception does not undo the writes made before it, so a method's outcome
  carries the store in both cases.  \<open>TypeError\<close> is a property read on \<^verbatim>\<open>null\<close> or
  \<^verbatim>\<open>undefined\<close>; \<open>CannotUndoRenderGroup\<close> is the \<^verbatim>\<open>Error\<close> thrown by the
  \<^verbatim>\<open>isRenderGroup\<close> setter.
\<close>

datatype error = TypeError | CannotUndoRenderGroup

datatype 'a outcome = Done 'a state | Threw error state

fun state_of :: "'a outcome \<Rightarrow> state" where
  "state_of (Done v s) = s"
| "state_of (Threw e s) = s"

text \<open>\<^verbatim>\<open>Array.prototype.indexOf\<close>: the first position of the element, or -1.\<close>

fun indexOf :: "'a list \<Rightarrow> 'a \<Rightarrow> int" where
  "indexOf [] x = -1"
| "indexOf (y # ys) x =
     (if y = x then 0 else (let i = indexOf ys x in if i = -1 then -1 else i + 1))"

text \<open>
  \<^verbatim>\<open>xs.splice(start, 1)\<close>: a negative start counts from the end (and is clamped at 0); one
  element is removed when the start lies inside the array.
\<close>

definition splice1 :: "'a list \<Rightarrow> int \<Rightarrow> 'a list" where
  "splice1 xs start =
     (let len = int (length xs);
          i = (if start < 0 then max (len + start) 0 else min start len)
      in take (nat i) xs @ drop (nat i + 1) xs)"

subsection \<open>RenderGroup\<close>

text \<open>
  Modelled from the spec: the class RenderGroup (scene/container/RenderGroup.ts is not
  among the sources).  The spec gives a render group "a root node reference, a
  worldTransform, a list of directly nested child render groups, a structural-change flag
  and a reference to a proxy renderable"; a new one is "rooted at this node".  The spec
  does not say what the constructor does with the subtree below the root, and the new
  group here has no members and no nested groups yet.
\<close>

definition newRenderGroup :: "cref \<Rightarrow> RenderGroup" where
  "newRenderGroup r =
     \<lparr>root = r, worldTransform = newMatrix, renderGroupParent = None,
      renderGroupChildren = [], structureDidChange = True, proxyRenderable = None,
      memberChildren = []\<rparr>"

text \<open>
  Modelled from the spec: \<^verbatim>\<open>RenderGroup.onChildUpdate\<close>, "notify that render group
  directly that this node changed".  Each notification is recorded with its group.
\<close>

definition rg_onChildUpdate :: "gref \<Rightarrow> cref \<Rightarrow> state \<Rightarrow> state" where
  "rg_onChildUpdate g child s = s\<lparr>childUpdates := childUpdates s @ [(g, child)]\<rparr>"

text \<open>
  Modelled from the spec: \<^verbatim>\<open>RenderGroup.onChildViewUpdate\<close>, the same for the
  view/content channel, which "always routes to this node's own render group".
\<close>

definition rg_onChildViewUpdate :: "gref \<Rightarrow> cref \<Rightarrow> state \<Rightarrow> state" where
  "rg_onChildViewUpdate g child s =
     s\<lparr>childViewUpdates := childViewUpdates s @ [(g, child)]\<rparr>"

text \<open>
  Modelled from the spec: \<^verbatim>\<open>RenderGroup.addRenderGroupChild\<close>, "that nested group
  becomes a child of the new group instead of the old one" and "register the new group
  as a nested child of the old group".  The nested group leaves the list of its former
  parent group, points at its new parent and is appended to the new parent's list.
\<close>

definition rg_addRenderGroupChild :: "gref \<Rightarrow> gref \<Rightarrow> state \<Rightarrow> state" where
  "rg_addRenderGroupChild this m s =
     (let s1 = (case renderGroupParent (groups s m) of
                  None \<Rightarrow> s
                | Some p \<Rightarrow>
                    upd_g p (\<lambda>r. r\<lparr>renderGroupChildren := remove1 m (renderGroupChildren r)\<rparr>) s);
          s2 = upd_g m (\<lambda>r. r\<lparr>renderGroupParent := Some this\<rparr>) s1
      in upd_g this (\<lambda>r. r\<lparr>renderGroupChildren := renderGroupChildren r @ [m]\<rparr>) s2)"

text \<open>
  Modelled from the spec: \<^verbatim>\<open>RenderGroup.removeChild\<close>, "detaches it from its render
  group" and "detach it from that group's child list".  A member of the group loses its
  membership; a node that roots a group of its own has that group unlinked from the
  nested groups.  The structural flag is set, membership having changed.  Only the node
  itself is detached: what the method does with the node's descendants is not in the
  spec's words and is left out, and the properties below read no render-group membership
  of a descendant.
\<close>

definition rg_removeChild :: "gref \<Rightarrow> cref \<Rightarrow> state \<Rightarrow> state" where
  "rg_removeChild this child s =
     (let s1 = upd_g this (\<lambda>r. r\<lparr>structureDidChange := True\<rparr>) s
      in case renderGroup (containers s child) of
           None \<Rightarrow> s1
         | Some m \<Rightarrow>
             if m = this then
               upd_c child (\<lambda>n. n\<lparr>renderGroup := None\<rparr>)
                 (upd_g this (\<lambda>r. r\<lparr>memberChildren := remove1 child (memberChildren r)\<rparr>) s1)
             else if root (groups s m) = child then
               upd_g m (\<lambda>r. r\<lparr>renderGroupParent := None\<rparr>)
                 (upd_g this (\<lambda>r. r\<lparr>renderGroupChildren := remove1 m (renderGroupChildren r)\<rparr>) s1)
             else s1)"

text \<open>
  Modelled from the spec: \<^verbatim>\<open>RenderGroup.addChild\<close>, "propagates render-group
  membership if this node has one".  A node that roots a group of its own has that group
  nested under this one; any other node becomes a member.  Only the node itself is
  added: its descendants are left as they are.
\<close>

definition rg_addChild :: "gref \<Rightarrow> cref \<Rightarrow> state \<Rightarrow> state" where
  "rg_addChild this child s =
     (let s1 = upd_g this (\<lambda>r. r\<lparr>structureDidChange := True\<rparr>) s;
          own = (case renderGroup (containers s child) of
                   None \<Rightarrow> None
                 | Some m \<Rightarrow> if root (groups s m) = child then Some m else None)
      in case own of
           Some m \<Rightarrow> rg_addRenderGroupChild this m s1
         | None \<Rightarrow>
             upd_c child (\<lambda>n. n\<lparr>renderGroup := Some this\<rparr>)
               (upd_g this (\<lambda>r. r\<lparr>memberChildren := memberChildren r @ [child]\<rparr>) s1))"

subsection \<open>Container: removeChild and addChild\<close>

text \<open>
  The single-argument body of \<^verbatim>\<open>removeChild\<close> (lines 623-641).  The splice and the
  render group's \<^verbatim>\<open>removeChild\<close> stand under \<^verbatim>\<open>if (index > -1)\<close>; the write
  \<^verbatim>\<open>child.parent = null\<close> and the two \<^verbatim>\<open>emit\<close> calls stand after it.
\<close>

definition removeChild_one :: "cref \<Rightarrow> cref \<Rightarrow> state \<Rightarrow> cref \<times> state" where
  "removeChild_one this child s =
     (let index = indexOf (children (containers s this)) child;
          s1 = (if index > -1 then
                  (let s' = upd_c this (\<lambda>n. n\<lparr>children := splice1 (children n) index\<rparr>) s
                   in case renderGroup (containers s' this) of
                        None \<Rightarrow> s'
                      | Some g \<Rightarrow> rg_removeChild g child s')
                else s);
          s2 = upd_c child (\<lambda>n. n\<lparr>parent := None\<rparr>) s1;
          s3 = emit this (ChildRemoved child this index) s2;
          s4 = emit child (Removed this) s3
      in (child, s4))"

text \<open>
  \<^verbatim>\<open>removeChild(...children)\<close>: more than one argument is removed one by one and the
  first is returned; with no argument \<^verbatim>\<open>children[0]\<close> is \<^verbatim>\<open>undefined\<close> and the
  write to its \<^verbatim>\<open>parent\<close> throws.
\<close>

definition removeChild :: "cref \<Rightarrow> cref list \<Rightarrow> state \<Rightarrow> cref outcome" where
  "removeChild this cs s =
     (case cs of
        [] \<Rightarrow> Threw TypeError s
      | [child] \<Rightarrow> (case removeChild_one this child s of (c, s') \<Rightarrow> Done c s')
      | first # _ \<Rightarrow> Done first (fold (\<lambda>c s. snd (removeChild_one this c s)) cs s))"

text \<open>
  Modelled from the spec: \<^verbatim>\<open>depthOfChildModified\<close> of the sort mixin, "triggers the
  sort-order-dirty hook on the external sort collaborator".  The call is recorded.
\<close>

definition depthOfChildModified :: "cref \<Rightarrow> state \<Rightarrow> state" where
  "depthOfChildModified this s = emit this DepthOfChildModified s"

text \<open>
  The single-argument body of \<^verbatim>\<open>addChild\<close> (lines 555-601).  The deprecation warning
  of a container that does not allow children writes nothing and is left out.
\<close>

definition addChild_one :: "cref \<Rightarrow> cref \<Rightarrow> state \<Rightarrow> cref \<times> state" where
  "addChild_one this child s =
     (if parent (containers s child) = Some this then
        (let s1 = upd_c this
                    (\<lambda>n. n\<lparr>children := splice1 (children n) (indexOf (children n) child) @ [child]\<rparr>) s;
             n = containers s1 this
         in (child,
             case renderGroup n of
               None \<Rightarrow> s1
             | Some g \<Rightarrow>
                 if \<not> isRenderGroupRoot n
                 then upd_g g (\<lambda>r. r\<lparr>structureDidChange := True\<rparr>) s1 else s1))
      else
        (let s1 = (case parent (containers s child) of
                     None \<Rightarrow> s
                   | Some p \<Rightarrow> snd (removeChild_one p child s));
             s2 = upd_c this (\<lambda>n. n\<lparr>children := children n @ [child]\<rparr>) s1;
             s3 = (if sortableChildren (containers s2 this)
                   then upd_c this (\<lambda>n. n\<lparr>sortDirty := True\<rparr>) s2 else s2);
             s4 = upd_c child
                    (\<lambda>n. n\<lparr>parent := Some this, didChange := True, didViewUpdate := False,
                           u_updateFlags := 0b1111\<rparr>) s3;
             s5 = (case renderGroup (containers s4 this) of
                     None \<Rightarrow> s4
                   | Some g \<Rightarrow> rg_addChild g child s4);
             s6 = emit this
                    (ChildAdded child this (int (length (children (containers s5 this))) - 1)) s5;
             s7 = emit child (Added this) s6;
             s8 = (if u_zIndex (containers s7 child) \<noteq> 0
                   then depthOfChildModified child s7 else s7)
         in (child, s8)))"

text \<open>\<^verbatim>\<open>addChild(...children)\<close>, with the same three cases as \<^verbatim>\<open>removeChild\<close>.\<close>

definition addChild :: "cref \<Rightarrow> cref list \<Rightarrow> state \<Rightarrow> cref outcome" where
  "addChild this cs s =
     (case cs of
        [] \<Rightarrow> Threw TypeError s
      | [child] \<Rightarrow> (case addChild_one this child s of (c, s') \<Rightarrow> Done c s')
      | first # _ \<Rightarrow> Done first (fold (\<lambda>c s. snd (addChild_one this c s)) cs s))"

subsection \<open>Container: change notification\<close>

text \<open>
  \<^verbatim>\<open>_updateSkew\<close>.  \<^verbatim>\<open>onUpdate\<close> calls it only for a point that is the node's own
  \<^verbatim>\<open>_skew\<close>, so the point is there; elsewhere the read of \<^verbatim>\<open>skew._y\<close> throws.
\<close>

definition u_updateSkew :: "cref \<Rightarrow> state \<Rightarrow> unit outcome" where
  "u_updateSkew this s =
     (let rotation = u_rotation (containers s this)
      in case u_skew (containers s this) of
           None \<Rightarrow> Threw TypeError s
         | Some skew \<Rightarrow>
             Done ()
               (upd_c this
                  (\<lambda>n. n\<lparr>u_cx := cos (rotation + pt_y skew),
                         u_sx := sin (rotation + pt_y skew),
                         u_cy := - sin (rotation - pt_x skew),
                         u_sy := cos (rotation - pt_x skew)\<rparr>) s))"

text \<open>\<^verbatim>\<open>point === this._skew\<close>, for a point that is not \<^verbatim>\<open>undefined\<close>.\<close>

definition is_skew_of :: "ObservablePoint \<Rightarrow> Container \<Rightarrow> bool" where
  "is_skew_of point n = (case u_skew n of None \<Rightarrow> False | Some k \<Rightarrow> pt_id point = pt_id k)"

text \<open>
  \<^verbatim>\<open>onUpdate(point?)\<close>.  A render-group root reads \<^verbatim>\<open>this.renderGroup.renderGroupParent\<close>,
  which throws when the group is \<^verbatim>\<open>null\<close>; \<^verbatim>\<open>didChange\<close> is already set by then.
\<close>

definition onUpdate :: "ObservablePoint option \<Rightarrow> cref \<Rightarrow> state \<Rightarrow> unit outcome" where
  "onUpdate point this s =
     (let s1 = (case point of
                  None \<Rightarrow> s
                | Some p \<Rightarrow>
                    if is_skew_of p (containers s this) then state_of (u_updateSkew this s) else s)
      in if didChange (containers s1 this) then Done () s1
         else
           (let s2 = upd_c this (\<lambda>n. n\<lparr>didChange := True\<rparr>) s1;
                n = containers s2 this
            in if isRenderGroupRoot n then
                 (case renderGroup n of
                    None \<Rightarrow> Threw TypeError s2
                  | Some g \<Rightarrow>
                      (case renderGroupParent (groups s2 g) of
                         None \<Rightarrow> Done () s2
                       | Some pg \<Rightarrow> Done () (rg_onChildUpdate pg this s2)))
               else
                 (case renderGroup n of
                    None \<Rightarrow> Done () s2
                  | Some g \<Rightarrow> Done () (rg_onChildUpdate g this s2))))"

text \<open>\<^verbatim>\<open>onViewUpdate()\<close>.\<close>

definition onViewUpdate :: "cref \<Rightarrow> state \<Rightarrow> state" where
  "onViewUpdate this s =
     (if didViewUpdate (containers s this) then s
      else
        (let s1 = upd_c this (\<lambda>n. n\<lparr>didViewUpdate := True\<rparr>) s
         in case renderGroup (containers s1 this) of
              None \<Rightarrow> s1
            | Some g \<Rightarrow> rg_onChildViewUpdate g this s1))"

subsection \<open>Container: visibility\<close>

definition UPDATE_COLOR :: "4 word" where "UPDATE_COLOR = 0b0001"
definition UPDATE_BLEND :: "4 word" where "UPDATE_BLEND = 0b0010"
definition UPDATE_VISIBLE :: "4 word" where "UPDATE_VISIBLE = 0b0100"
definition UPDATE_TRANSFORM :: "4 word" where "UPDATE_TRANSFORM = 0b1000"



text \<open>\<^verbatim>\<open>this.renderGroup && !this.isRenderGroupRoot\<close>, then the flag is set.\<close>

definition mark_structure :: "cref \<Rightarrow> state \<Rightarrow> state" where
  "mark_structure this s =
     (case renderGroup (containers s this) of
        None \<Rightarrow> s
      | Some g \<Rightarrow>
          if \<not> isRenderGroupRoot (containers s this)
          then upd_g g (\<lambda>r. r\<lparr>structureDidChange := True\<rparr>) s else s)"


definition set_renderable :: "bool \<Rightarrow> cref \<Rightarrow> state \<Rightarrow> unit outcome" where
  "set_renderable v this s =
     (let valueNumber = (if v then 1 else 0 :: 2 word)
      in if localVisibleRenderable (containers s this) AND 0b01 = valueNumber
         then Done () s
         else
           (let s1 = upd_c this
                       (\<lambda>n. n\<lparr>localVisibleRenderable :=
                                 (localVisibleRenderable n AND 0b10) OR valueNumber\<rparr>) s;
                s2 = upd_c this (\<lambda>n. n\<lparr>u_updateFlags := u_updateFlags n OR UPDATE_VISIBLE\<rparr>) s1;
                s3 = mark_structure this s2
            in onUpdate None this s3))"


subsection \<open>Container: render groups\<close>

text \<open>
  \<^verbatim>\<open>_updateIsSimple\<close>.  \<^verbatim>\<open>&&\<close> evaluates \<^verbatim>\<open>this.effects.length\<close> only when the node
  is not a render-group root; a destroyed node has \<^verbatim>\<open>effects === null\<close>.
\<close>

definition u_updateIsSimple :: "cref \<Rightarrow> state \<Rightarrow> unit outcome" where
  "u_updateIsSimple this s =
     (if isRenderGroupRoot (containers s this)
      then Done () (upd_c this (\<lambda>n. n\<lparr>isSimple := False\<rparr>) s)
      else case effects (containers s this) of
             None \<Rightarrow> Threw TypeError s
           | Some es \<Rightarrow> Done () (upd_c this (\<lambda>n. n\<lparr>isSimple := (length es = 0)\<rparr>) s))"

text \<open>
  The \<^verbatim>\<open>while (parent)\<close> walk of \<^verbatim>\<open>enableRenderGroup\<close>: \<open>Some True\<close> when it meets
  \<open>this\<close>, \<open>Some False\<close> when the ancestors run out, and no result when the parent
  pointers form a cycle that \<open>this\<close> is not on.
\<close>

partial_function (option) walk_up :: "cref \<Rightarrow> cref option \<Rightarrow> state \<Rightarrow> bool option" where
  "walk_up this p s =
     (case p of
        None \<Rightarrow> Some False
      | Some q \<Rightarrow> if q = this then Some True else walk_up this (parent (containers s q)) s)"

text \<open>
  The \<^verbatim>\<open>for\<close> loop of \<^verbatim>\<open>enableRenderGroup\<close> from index \<open>i\<close> on.  Each round reads
  \<^verbatim>\<open>parentRenderGroup.renderGroupChildren\<close> and its \<^verbatim>\<open>length\<close> anew from the store.
  \<open>newGroup\<close> is \<^verbatim>\<open>this.renderGroup\<close>, assigned before the loop and not written in it.
\<close>

partial_function (option) rehome_loop ::
  "cref \<Rightarrow> gref \<Rightarrow> gref \<Rightarrow> nat \<Rightarrow> state \<Rightarrow> state option" where
  "rehome_loop this parentRenderGroup newGroup i s =
     (if i < length (renderGroupChildren (groups s parentRenderGroup)) then
        (let childRenderGroup = renderGroupChildren (groups s parentRenderGroup) ! i
         in Option.bind (walk_up this (Some (root (groups s childRenderGroup))) s)
              (\<lambda>found.
                 rehome_loop this parentRenderGroup newGroup (i + 1)
                   (if found then rg_addRenderGroupChild newGroup childRenderGroup s else s)))
      else Some s)"

definition enableRenderGroup :: "cref \<Rightarrow> state \<Rightarrow> unit outcome option" where
  "enableRenderGroup this s =
     (if (case renderGroup (containers s this) of
            None \<Rightarrow> False
          | Some g \<Rightarrow> root (groups s g) = this)
      then Some (Done () s)
      else
        (let s1 = upd_c this (\<lambda>n. n\<lparr>isRenderGroupRoot := True\<rparr>) s;
             parentRenderGroup = renderGroup (containers s1 this);
             s2 = (case parentRenderGroup of
                     None \<Rightarrow> s1
                   | Some pg \<Rightarrow> rg_removeChild pg this s1);
             g = nextGroup s2;
             s3 = upd_c this (\<lambda>n. n\<lparr>renderGroup := Some g\<rparr>)
                    (s2\<lparr>groups := (groups s2)(g := newRenderGroup this), nextGroup := g + 1\<rparr>)
         in Option.bind
              (case parentRenderGroup of
                 None \<Rightarrow> Some s3
               | Some pg \<Rightarrow>
                   map_option (rg_addRenderGroupChild pg g) (rehome_loop this pg g 0 s3))
              (\<lambda>s4. Some (u_updateIsSimple this s4))))"

definition set_isRenderGroup :: "bool \<Rightarrow> cref \<Rightarrow> state \<Rightarrow> unit outcome option" where
  "set_isRenderGroup v this s =
     (if isRenderGroupRoot (containers s this) \<and> v = False
      then Some (Threw CannotUndoRenderGroup s)
      else if v then enableRenderGroup this s
      else Some (Done () s))"

definition get_isRenderGroup :: "Container \<Rightarrow> bool" where
  "get_isRenderGroup n = isRenderGroupRoot n"

subsection \<open>Container: destroy\<close>

text \<open>
  Modelled from the spec: \<^verbatim>\<open>removeFromParent\<close> of the children helper mixin, "severs
  parent link": the parent, when there is one, removes this node.
\<close>

definition removeFromParent :: "cref \<Rightarrow> state \<Rightarrow> state" where
  "removeFromParent this s =
     (case parent (containers s this) of
        None \<Rightarrow> s
      | Some p \<Rightarrow> snd (removeChild_one p this s))"

text \<open>
  Modelled from the spec: \<^verbatim>\<open>removeChildren(0, this.children.length)\<close> of the children
  helper mixin, "removes all children from this node first (detaching them from the
  tree)".  Every child is detached from this node's render group, when it has one, and
  loses its parent pointer; the list is emptied and the removed children are returned.
\<close>

definition detach_child :: "cref \<Rightarrow> cref \<Rightarrow> state \<Rightarrow> state" where
  "detach_child this child s =
     upd_c child (\<lambda>n. n\<lparr>parent := None\<rparr>)
       (case renderGroup (containers s this) of
          None \<Rightarrow> s
        | Some g \<Rightarrow> rg_removeChild g child s)"

definition removeChildren_all :: "cref \<Rightarrow> state \<Rightarrow> cref list \<times> state" where
  "removeChildren_all this s =
     (let removed = children (containers s this);
          s1 = fold (detach_child this) removed s
      in (removed, upd_c this (\<lambda>n. n\<lparr>children := []\<rparr>) s1))"

text \<open>
  The options of \<^verbatim>\<open>destroy\<close>: a boolean, or an object whose \<^verbatim>\<open>children\<close> field is
  truthy or not.  \<open>destroyChildren\<close> is the constant of that name in the source.
\<close>

datatype DestroyOptions = AsBoolean bool | AsObject bool

fun destroyChildren :: "DestroyOptions \<Rightarrow> bool" where
  "destroyChildren (AsBoolean b) = b"
| "destroyChildren (AsObject b) = b"

text \<open>
  \<^verbatim>\<open>destroy\<close> from the write of the flag to the call of \<^verbatim>\<open>removeChildren\<close> (lines
  1083-1106); it yields \<^verbatim>\<open>oldChildren\<close>.  Listeners are not part of the store, so
  \<^verbatim>\<open>removeAllListeners\<close> writes nothing.
\<close>

definition destroy_head :: "cref \<Rightarrow> state \<Rightarrow> (cref list) outcome" where
  "destroy_head this s =
     (let s1 = upd_c this (\<lambda>n. n\<lparr>destroyed := True\<rparr>) s;
          s2 = removeFromParent this s1;
          s3 = upd_c this
                 (\<lambda>n. n\<lparr>parent := None, u_mask := None, u_filters := None, effects := None,
                        u_position := None, u_scale := None, u_pivot := None,
                        u_skew := None\<rparr>) s2;
          n = containers s3 this
      in if isRenderGroupRoot n \<and> renderGroup n = None then Threw TypeError s3
         else
           (let s4 = (case renderGroup n of
                        None \<Rightarrow> s3
                      | Some g \<Rightarrow>
                          if isRenderGroupRoot n
                          then upd_g g (\<lambda>r. r\<lparr>proxyRenderable := None\<rparr>) s3 else s3);
                s5 = emit this Destroyed s4
            in case removeChildren_all this s5 of
                 (oldChildren, s6) \<Rightarrow> Done oldChildren s6))"

text \<open>The end of \<^verbatim>\<open>destroy\<close> (lines 1116-1120): the view is destroyed and disowned.\<close>

definition destroy_view :: "cref \<Rightarrow> state \<Rightarrow> state" where
  "destroy_view this s =
     upd_c this
       (\<lambda>n. n\<lparr>view := map_option (\<lambda>v. v\<lparr>viewDestroyed := True, owner := None\<rparr>) (view n)\<rparr>) s"

text \<open>
  The loop \<^verbatim>\<open>for (i ...) oldChildren[i].destroy(options)\<close>, with the body of
  \<^verbatim>\<open>destroy\<close> written out for each child: the guard on \<^verbatim>\<open>destroyed\<close>, the head, the
  loop over the child's own former children when the option asks for it, the view.  An
  exception leaves the loop.  There is no result when the recursion does not end.
\<close>

partial_function (option) destroy_each ::
  "DestroyOptions \<Rightarrow> cref list \<Rightarrow> state \<Rightarrow> unit outcome option" where
  "destroy_each options cs s =
     (case cs of
        [] \<Rightarrow> Some (Done () s)
      | c # rest \<Rightarrow>
          Option.bind
            (if destroyed (containers s c) then Some (Done () s)
             else
               (case destroy_head c s of
                  Threw e s' \<Rightarrow> Some (Threw e s')
                | Done oldChildren s' \<Rightarrow>
                    Option.bind
                      (if destroyChildren options then destroy_each options oldChildren s'
                       else Some (Done () s'))
                      (\<lambda>r. case r of
                             Threw e s'' \<Rightarrow> Some (Threw e s'')
                           | Done u s'' \<Rightarrow> Some (Done () (destroy_view c s'')))))
            (\<lambda>r. case r of
                   Threw e s' \<Rightarrow> Some (Threw e s')
                 | Done u s' \<Rightarrow> destroy_each options rest s'))"

text \<open>\<^verbatim>\<open>destroy(options)\<close>.\<close>

definition destroy :: "DestroyOptions \<Rightarrow> cref \<Rightarrow> state \<Rightarrow> unit outcome option" where
  "destroy options this s =
     (if destroyed (containers s this) then Some (Done () s)
      else
        (case destroy_head this s of
           Threw e s' \<Rightarrow> Some (Threw e s')
         | Done oldChildren s' \<Rightarrow>
             Option.bind
               (if destroyChildren options then destroy_each options oldChildren s'
                else Some (Done () s'))
               (\<lambda>r. case r of
                      Threw e s'' \<Rightarrow> Some (Threw e s'')
                    | Done u s'' \<Rightarrow> Some (Done () (destroy_view this s'')))))"

subsection \<open>A new container and the initial store\<close>

text \<open>
  The field initialisers of the class (lines 313-492) and the constructor called with no
  options, which leaves \<^verbatim>\<open>effects = []\<close>.  \<open>ownPosition\<close> stands for the
  \<^verbatim>\<open>new ObservablePoint(this, 0, 0)\<close> of \<^verbatim>\<open>_position\<close>.
\<close>

definition ownPosition :: ObservablePoint where
  "ownPosition = \<lparr>pt_id = 3, pt_x = 0, pt_y = 0\<rparr>"

definition newContainer :: Container where
  "newContainer =
     \<lparr>u_updateFlags = 0b1111, isRenderGroupRoot = False, renderGroup = None,
      didChange = False, didViewUpdate = False, children = [], parent = None,
      isSimple = True, localTransform = newMatrix, rgTransform = newMatrix,
      u_worldTransform = None, destroyed = False, u_position = Some ownPosition,
      u_scale = Some defaultScale, u_pivot = Some defaultPivot, u_skew = Some defaultSkew,
      u_cx = 1, u_sx = 0, u_cy = 0, u_sy = 1, u_rotation = 0, localAlpha = 1, rgAlpha = 1,
      localVisibleRenderable = 0b11, rgVisibleRenderable = 0b11, view = None,
      effects = Some [], u_mask = None, u_filters = None, sortableChildren = False,
      sortDirty = False, u_zIndex = 0\<rparr>"

text \<open>A store in which every reference denotes a container just constructed.\<close>

definition init_state :: state where
  "init_state =
     \<lparr>containers = (\<lambda>c. newContainer), groups = (\<lambda>g. newRenderGroup 0), nextGroup = 0,
      emitted = [], childUpdates = [], childViewUpdates = []\<rparr>"

text \<open>
  The render group that \<^verbatim>\<open>onUpdate\<close> notifies when the node was clean: the parent of
  the group a root owns, or the group a plain member belongs to.
\<close>

definition upward_target :: "cref \<Rightarrow> state \<Rightarrow> gref option" where
  "upward_target this s =
     (case renderGroup (containers s this) of
        None \<Rightarrow> None
      | Some g \<Rightarrow>
          if isRenderGroupRoot (containers s this) then renderGroupParent (groups s g)
          else Some g)"

subsection \<open>Scenes used as concrete inputs\<close>

text \<open>
  Node 0 roots render group 0, whose world transform translates by (10, 0); node 1 is a
  plain member of that group, placed at (5, 5) relative to it.
\<close>

definition scene_group :: state where
  "scene_group =
     upd_g 0 (\<lambda>r. r\<lparr>worldTransform := newMatrix\<lparr>m_tx := 10\<rparr>, memberChildren := [1]\<rparr>)
       (upd_c 1 (\<lambda>n. n\<lparr>parent := Some 0, renderGroup := Some 0,
                         rgTransform := newMatrix\<lparr>m_tx := 5, m_ty := 5\<rparr>\<rparr>)
          (upd_c 0 (\<lambda>n. n\<lparr>isRenderGroupRoot := True, renderGroup := Some 0, children := [1],
                            localTransform := newMatrix\<lparr>m_tx := 7\<rparr>\<rparr>)
             init_state))"

text \<open>
  Three new containers after \<^verbatim>\<open>Q.addChild(N)\<close> with Q = 1 and N = 2: node 2 is the
  only child of node 1, and node 0 has no children.
\<close>

definition scene_foreign_child :: state where
  "scene_foreign_child = state_of (addChild 1 [2] init_state)"

text \<open>Node 0, a plain member of render group 5, has the children 2, 3 and 4.\<close>

definition scene_siblings :: state where
  "scene_siblings =
     upd_c 0 (\<lambda>n. n\<lparr>children := [2, 3, 4], renderGroup := Some 5\<rparr>)
       (upd_c 2 (\<lambda>n. n\<lparr>parent := Some 0, renderGroup := Some 5\<rparr>)
          (upd_c 3 (\<lambda>n. n\<lparr>parent := Some 0, renderGroup := Some 5\<rparr>)
             (upd_c 4 (\<lambda>n. n\<lparr>parent := Some 0, renderGroup := Some 5\<rparr>)
                (upd_g 5 (\<lambda>r. r\<lparr>root := 9, structureDidChange := False\<rparr>) init_state))))"

text \<open>Node 0 has the children 2 and 3; node 4 is the child of node 2.\<close>

definition scene_tree :: state where
  "scene_tree =
     upd_c 0 (\<lambda>n. n\<lparr>children := [2, 3]\<rparr>)
       (upd_c 2 (\<lambda>n. n\<lparr>parent := Some 0, children := [4]\<rparr>)
          (upd_c 3 (\<lambda>n. n\<lparr>parent := Some 0\<rparr>)
             (upd_c 4 (\<lambda>n. n\<lparr>parent := Some 2\<rparr>) init_state)))"

subsection \<open>Predicates on stores used to state the properties of destroy\<close>

text \<open>
  \<open>subtree_closed R s\<close>: the set \<open>R\<close> of nodes holds the children of each of its
  members.  A finite such set around a node says that the node has finitely many
  descendants.
\<close>

definition subtree_closed :: "cref set \<Rightarrow> state \<Rightarrow> bool" where
  "subtree_closed R s = (\<forall>c\<in>R. set (children (containers s c)) \<subseteq> R)"

text \<open>
  \<open>tidy s\<close>: a destroyed node has neither a parent nor children, which is how
  \<^verbatim>\<open>destroy\<close> leaves a node.
\<close>

definition tidy :: "state \<Rightarrow> bool" where
  "tidy s =
     (\<forall>c. destroyed (containers s c) \<longrightarrow>
          parent (containers s c) = None \<and> children (containers s c) = [])"

text \<open>
  \<open>roots_own_group R s\<close>: a render-group root in \<open>R\<close> has a render group, and it is
  not the group of its parent nor of a node that lists it as a child.
\<close>

definition roots_own_group :: "cref set \<Rightarrow> state \<Rightarrow> bool" where
  "roots_own_group R s =
     (\<forall>c\<in>R. isRenderGroupRoot (containers s c) \<longrightarrow>
        renderGroup (containers s c) \<noteq> None \<and>
        (\<forall>p. parent (containers s c) = Some p \<or> c \<in> set (children (containers s p)) \<longrightarrow>
             renderGroup (containers s p) \<noteq> renderGroup (containers s c)))"

text \<open>How often a node has emitted \<^verbatim>\<open>destroyed\<close>.\<close>

definition destroyed_events :: "state \<Rightarrow> cref \<Rightarrow> nat" where
  "destroyed_events s c = count_list (emitted s) (c, Destroyed)"

text \<open>
  \<open>detaches R s s'\<close> relates a store to a later one in which nodes may have been
  destroyed, child lists may have lost members, and parent pointers and render-group
  memberships may have been cleared, the groups of the roots in \<open>R\<close> excepted.
\<close>

definition detaches :: "cref set \<Rightarrow> state \<Rightarrow> state \<Rightarrow> bool" where
  "detaches R s s' =
     (\<forall>x. (destroyed (containers s x) \<longrightarrow> destroyed (containers s' x)) \<and>
          set (children (containers s' x)) \<subseteq> set (children (containers s x)) \<and>
          (parent (containers s' x) = None \<or>
           parent (containers s' x) = parent (containers s x)) \<and>
          isRenderGroupRoot (containers s' x) = isRenderGroupRoot (containers s x) \<and>
          (renderGroup (containers s' x) = None \<or>
           renderGroup (containers s' x) = renderGroup (containers s x)) \<and>
          (x \<in> R \<and> isRenderGroupRoot (containers s x) \<longrightarrow>
           renderGroup (containers s' x) = renderGroup (containers s x)))"

text \<open>
  \<open>advances R s s'\<close>: moreover every node destroyed in between has lost its parent
  and its children and has emitted \<^verbatim>\<open>destroyed\<close> once more, and no other node has
  emitted it.
\<close>

definition advances :: "cref set \<Rightarrow> state \<Rightarrow> state \<Rightarrow> bool" where
  "advances R s s' =
     (detaches R s s' \<and>
      (\<forall>x. destroyed (containers s' x) \<and> \<not> destroyed (containers s x) \<longrightarrow>
           parent (containers s' x) = None \<and> children (containers s' x) = []) \<and>
      (\<forall>x. destroyed_events s' x =
           destroyed_events s x +
             (if destroyed (containers s' x) \<and> \<not> destroyed (containers s x) then 1 else 0)))"

text \<open>
  \<open>links_consistent s\<close>: a node is in the children of \<open>p\<close> exactly when its parent
  pointer is \<open>p\<close>, and no list of children holds a node twice.
\<close>

definition links_consistent :: "state \<Rightarrow> bool" where
  "links_consistent s =
     ((\<forall>p n. (n \<in> set (children (containers s p))) = (parent (containers s n) = Some p)) \<and>
      (\<forall>p. distinct (children (containers s p))))"

section \<open>Properties\<close>

subsection \<open>Reading the store after an update\<close>

lemma upd_c_simps [simp]:
  "containers (upd_c c f s) = (containers s)(c := f (containers s c))"
  "groups (upd_c c f s) = groups s"
  "nextGroup (upd_c c f s) = nextGroup s"
  "emitted (upd_c c f s) = emitted s"
  "childUpdates (upd_c c f s) = childUpdates s"
  "childViewUpdates (upd_c c f s) = childViewUpdates s"
  by (simp_all add: upd_c_def)

lemma upd_g_simps [simp]:
  "containers (upd_g g f s) = containers s"
  "groups (upd_g g f s) = (groups s)(g := f (groups s g))"
  "nextGroup (upd_g g f s) = nextGroup s"
  "emitted (upd_g g f s) = emitted s"
  "childUpdates (upd_g g f s) = childUpdates s"
  "childViewUpdates (upd_g g f s) = childViewUpdates s"
  by (simp_all add: upd_g_def)

lemma emit_simps [simp]:
  "containers (emit c e s) = containers s"
  "groups (emit c e s) = groups s"
  "nextGroup (emit c e s) = nextGroup s"
  "emitted (emit c e s) = emitted s @ [(c, e)]"
  "childUpdates (emit c e s) = childUpdates s"
  "childViewUpdates (emit c e s) = childViewUpdates s"
  by (simp_all add: emit_def)

lemma rg_onChildUpdate_simps [simp]:
  "containers (rg_onChildUpdate g c s) = containers s"
  "groups (rg_onChildUpdate g c s) = groups s"
  "nextGroup (rg_onChildUpdate g c s) = nextGroup s"
  "emitted (rg_onChildUpdate g c s) = emitted s"
  "childUpdates (rg_onChildUpdate g c s) = childUpdates s @ [(g, c)]"
  "childViewUpdates (rg_onChildUpdate g c s) = childViewUpdates s"
  by (simp_all add: rg_onChildUpdate_def)

lemma init_state_simps [simp]:
  "containers init_state c = newContainer"
  "groups init_state g = newRenderGroup 0"
  "nextGroup init_state = 0"
  "emitted init_state = []"
  "childUpdates init_state = []"
  "childViewUpdates init_state = []"
  by (simp_all add: init_state_def)

subsection \<open>The world transform\<close>

lemma copyFrom_eq: "copyFrom w other = other"
  by (simp add: copyFrom_def)

lemma apply_appendFrom:
  "apply_matrix (appendFrom w x y) p = apply_matrix y (apply_matrix x p)"
  by (simp add: apply_matrix_def appendFrom_def algebra_simps)

text \<open>
  Claim C3.  For a node that belongs to a render group \<open>g\<close>: when the node is a
  render-group root, the matrix read from \<^verbatim>\<open>worldTransform\<close> is equal, field by field,
  to the world transform of \<open>g\<close>, whatever the node's \<^verbatim>\<open>localTransform\<close> and
  \<^verbatim>\<open>rgTransform\<close> hold; otherwise it is the composition that moves every point by
  \<^verbatim>\<open>rgTransform\<close> first and by the group's world transform second.
\<close>

theorem worldTransform_in_render_group:
  assumes "renderGroup (containers s this) = Some g"
  shows "if isRenderGroupRoot (containers s this)
         then fst (get_worldTransform this s) = worldTransform (groups s g)
         else \<forall>p. apply_matrix (fst (get_worldTransform this s)) p =
                apply_matrix (worldTransform (groups s g))
                  (apply_matrix (rgTransform (containers s this)) p)"
  using assms by (simp add: get_worldTransform_def Let_def copyFrom_eq apply_appendFrom)

text \<open>
  The theorem at \<open>scene_group\<close>: the root 0 reads the group's translation by (10, 0)
  although its own local transform translates by 7, and the member 1 sends the origin to
  (15, 5).
\<close>

theorem worldTransform_in_render_group_witness:
  "renderGroup (containers scene_group 0) = Some 0 \<and>
   isRenderGroupRoot (containers scene_group 0) \<and>
   fst (get_worldTransform 0 scene_group) = worldTransform (groups scene_group 0) \<and>
   renderGroup (containers scene_group 1) = Some 0 \<and>
   \<not> isRenderGroupRoot (containers scene_group 1) \<and>
   apply_matrix (fst (get_worldTransform 1 scene_group)) (0, 0) = (15, 5)"
proof -
  have g0: "renderGroup (containers scene_group 0) = Some 0"
    and g1: "renderGroup (containers scene_group 1) = Some 0"
    and r0: "isRenderGroupRoot (containers scene_group 0)"
    and r1: "\<not> isRenderGroupRoot (containers scene_group 1)"
    by (simp_all add: scene_group_def newContainer_def)
  have w: "worldTransform (groups scene_group 0) = newMatrix\<lparr>m_tx := 10\<rparr>"
    and t: "rgTransform (containers scene_group 1) = newMatrix\<lparr>m_tx := 5, m_ty := 5\<rparr>"
    by (simp_all add: scene_group_def)
  from worldTransform_in_render_group [OF g0] r0
  have a: "fst (get_worldTransform 0 scene_group) = worldTransform (groups scene_group 0)"
    by simp
  from worldTransform_in_render_group [OF g1] r1
  have "apply_matrix (fst (get_worldTransform 1 scene_group)) (0, 0) =
          apply_matrix (worldTransform (groups scene_group 0))
            (apply_matrix (rgTransform (containers scene_group 1)) (0, 0))"
    by simp
  then have b: "apply_matrix (fst (get_worldTransform 1 scene_group)) (0, 0) = (15, 5)"
    unfolding w t by (simp add: apply_matrix_def newMatrix_def)
  from g0 g1 r0 r1 a b show ?thesis by simp
qed

text \<open>
  Claim C10.  For a node with no render group the getter, a total function with no
  exception in it, returns the stored matrix, or the identity when none was stored yet
  (the first read); it stores what it returns and composes nothing; a second read
  returns the same matrix and leaves the store as the first read left it.
\<close>

theorem worldTransform_without_render_group:
  assumes "renderGroup (containers s this) = None"
  shows "fst (get_worldTransform this s) =
           (case u_worldTransform (containers s this) of None \<Rightarrow> newMatrix | Some w \<Rightarrow> w) \<and>
         snd (get_worldTransform this s) =
           upd_c this (\<lambda>n. n\<lparr>u_worldTransform := Some (fst (get_worldTransform this s))\<rparr>) s \<and>
         get_worldTransform this (snd (get_worldTransform this s)) = get_worldTransform this s \<and>
         (\<forall>p. apply_matrix newMatrix p = p)"
  using assms
  by (simp add: get_worldTransform_def Let_def upd_c_def apply_matrix_def newMatrix_def
      split: option.split)

text \<open>The theorem at a container just constructed: the first read is the identity.\<close>

theorem worldTransform_without_render_group_witness:
  "renderGroup (containers init_state 0) = None \<and>
   fst (get_worldTransform 0 init_state) = newMatrix \<and>
   fst (get_worldTransform 0 (snd (get_worldTransform 0 init_state))) = newMatrix"
proof -
  have h: "renderGroup (containers init_state 0) = None"
    by (simp add: newContainer_def)
  have u: "u_worldTransform (containers init_state 0) = None"
    by (simp add: newContainer_def)
  note inst = worldTransform_without_render_group [OF h]
  from inst have first: "fst (get_worldTransform 0 init_state) = newMatrix"
    unfolding u by simp
  from inst have "get_worldTransform 0 (snd (get_worldTransform 0 init_state)) =
      get_worldTransform 0 init_state"
    by (elim conjE)
  then have "fst (get_worldTransform 0 (snd (get_worldTransform 0 init_state))) =
      fst (get_worldTransform 0 init_state)"
    by (rule arg_cong)
  also note first
  finally have "fst (get_worldTransform 0 (snd (get_worldTransform 0 init_state))) = newMatrix" .
  with h first show ?thesis by (intro conjI)
qed

subsection \<open>Change notification\<close>

lemma updateSkew_fields:
  "localVisibleRenderable (containers (state_of (u_updateSkew this s)) c) =
     localVisibleRenderable (containers s c)"
  "didChange (containers (state_of (u_updateSkew this s)) c) = didChange (containers s c)"
  "renderGroup (containers (state_of (u_updateSkew this s)) c) = renderGroup (containers s c)"
  "isRenderGroupRoot (containers (state_of (u_updateSkew this s)) c) =
     isRenderGroupRoot (containers s c)"
  "groups (state_of (u_updateSkew this s)) = groups s"
  "childUpdates (state_of (u_updateSkew this s)) = childUpdates s"
  by (simp_all add: u_updateSkew_def Let_def split: option.split)

lemma onUpdate_result:
  "didChange (containers (state_of (onUpdate p this s)) this)"
  "childUpdates (state_of (onUpdate p this s)) =
     childUpdates s @
       (if didChange (containers s this) then []
        else case upward_target this s of None \<Rightarrow> [] | Some g \<Rightarrow> [(g, this)])"
  "groups (state_of (onUpdate p this s)) = groups s"
  by (simp_all add: onUpdate_def Let_def updateSkew_fields upward_target_def
      split: option.split)


text \<open>
  Claim C4, as the code has it.  After two calls of \<^verbatim>\<open>onUpdate\<close> in a row
  \<^verbatim>\<open>didChange\<close> is true and the second call has notified nobody.  The first call
  notifies once, the group given by \<open>upward_target\<close>, when the node was clean and has
  such a group; it notifies nobody when the node was already marked, has no render
  group, or roots a group that has no parent group.
\<close>

theorem onUpdate_twice:
  "didChange (containers (state_of (onUpdate q this (state_of (onUpdate p this s)))) this) \<and>
   childUpdates (state_of (onUpdate q this (state_of (onUpdate p this s)))) =
     childUpdates (state_of (onUpdate p this s)) \<and>
   childUpdates (state_of (onUpdate p this s)) =
     childUpdates s @
       (if didChange (containers s this) then []
        else case upward_target this s of None \<Rightarrow> [] | Some g \<Rightarrow> [(g, this)])"
  by (simp add: onUpdate_result)

text \<open>
  Claim C4 as stated fails for a container just constructed, which has no render group:
  two calls of \<^verbatim>\<open>onUpdate\<close> produce no notification at all, not one.
\<close>

theorem onUpdate_twice_counterexample:
  "\<not> (length (childUpdates (state_of (onUpdate None 0 (state_of (onUpdate None 0 init_state))))) =
        length (childUpdates init_state) + 1)"
  by (simp add: onUpdate_def newContainer_def Let_def)

subsection \<open>Visibility\<close>


lemma mark_structure_containers [simp]: "containers (mark_structure this s) = containers s"
  by (simp add: mark_structure_def split: option.split)



subsection \<open>Render groups\<close>

text \<open>
  Claim C9.  Setting \<^verbatim>\<open>isRenderGroup = false\<close> on a node that is a render-group root
  throws, and the store the exception leaves behind is the store before the call: no
  field of the node, of its render group or of anything else was written.
\<close>

theorem demote_render_group_root:
  assumes "isRenderGroupRoot (containers s this)"
  shows "set_isRenderGroup False this s = Some (Threw CannotUndoRenderGroup s)"
  using assms by (simp add: set_isRenderGroup_def)

text \<open>The theorem at the root of \<open>scene_group\<close>.\<close>

theorem demote_render_group_root_witness:
  "isRenderGroupRoot (containers scene_group 0) \<and>
   set_isRenderGroup False 0 scene_group = Some (Threw CannotUndoRenderGroup scene_group)"
proof -
  have r: "isRenderGroupRoot (containers scene_group 0)"
    by (simp add: scene_group_def newContainer_def)
  from r demote_render_group_root [OF r] show ?thesis by (intro conjI)
qed

text \<open>A node that owns a render group rooted at itself is left as it is.\<close>

lemma enableRenderGroup_owner:
  assumes "renderGroup (containers s this) = Some g" and "root (groups s g) = this"
  shows "enableRenderGroup this s = Some (Done () s)"
  using assms by (simp add: enableRenderGroup_def)

subsection \<open>Children\<close>

lemma indexOf_ge: "-1 \<le> indexOf xs x"
  by (induction xs) (auto simp: Let_def)

lemma indexOf_notin: "x \<notin> set xs \<Longrightarrow> indexOf xs x = -1"
  by (induction xs) (auto simp: Let_def)

lemma indexOf_in: "x \<in> set xs \<Longrightarrow> 0 \<le> indexOf xs x"
proof (induction xs)
  case Nil
  then show ?case by simp
next
  case (Cons y ys)
  have "-1 \<le> indexOf ys x" by (rule indexOf_ge)
  with Cons show ?case by (auto simp: Let_def)
qed

lemma splice1_Cons: "0 \<le> i \<Longrightarrow> splice1 (y # ys) (i + 1) = y # splice1 ys i"
  by (auto simp: splice1_def Let_def min_def nat_add_distrib)

lemma splice1_0: "splice1 (y # ys) 0 = ys"
  by (simp add: splice1_def)

lemma splice1_indexOf: "x \<in> set xs \<Longrightarrow> splice1 xs (indexOf xs x) = remove1 x xs"
proof (induction xs)
  case Nil
  then show ?case by simp
next
  case (Cons y ys)
  show ?case
  proof (cases "y = x")
    case True
    then show ?thesis by (simp add: splice1_0)
  next
    case False
    with Cons.prems have in_ys: "x \<in> set ys" by simp
    then have "0 \<le> indexOf ys x" by (rule indexOf_in)
    then have "indexOf ys x \<noteq> -1" by simp
    with False in_ys Cons.IH \<open>0 \<le> indexOf ys x\<close> show ?thesis
      by (simp add: Let_def splice1_Cons)
  qed
qed

text \<open>A call with one argument runs the single-argument body.\<close>

lemma addChild_single:
  "addChild this [c] s = Done (fst (addChild_one this c s)) (snd (addChild_one this c s))"
  by (simp add: addChild_def split: prod.split)

lemma removeChild_single:
  "removeChild this [c] s =
     Done (fst (removeChild_one this c s)) (snd (removeChild_one this c s))"
  by (simp add: removeChild_def split: prod.split)

text \<open>What \<^verbatim>\<open>removeChild\<close> does with a node that is not among the children.\<close>

lemma removeChild_absent:
  assumes "child \<notin> set (children (containers s this))"
  shows "removeChild this [child] s =
           Done child
             (emit child (Removed this)
                (emit this (ChildRemoved child this (-1))
                   (upd_c child (\<lambda>n. n\<lparr>parent := None\<rparr>) s)))"
  using assms by (simp add: removeChild_single removeChild_one_def Let_def indexOf_notin)

text \<open>
  Claim C5.  When \<open>child\<close> is in the children of \<open>this\<close> and its parent pointer is
  \<open>this\<close>, \<^verbatim>\<open>addChild\<close> returns the child and changes the store in two places only:
  the child moves to the end of the children of \<open>this\<close>, and the render group of
  \<open>this\<close> has \<^verbatim>\<open>structureDidChange\<close> set exactly when \<open>this\<close> has a render group
  and is not a render-group root.  The parent pointer of the child and the render-group
  membership of every node are as before.
\<close>

theorem addChild_existing_child:
  assumes "parent (containers s child) = Some this"
    and "child \<in> set (children (containers s this))"
  shows "addChild this [child] s =
           Done child
             (mark_structure this
                (upd_c this (\<lambda>n. n\<lparr>children := remove1 child (children n) @ [child]\<rparr>) s)) \<and>
         children (containers (state_of (addChild this [child] s)) this) =
           remove1 child (children (containers s this)) @ [child] \<and>
         parent (containers (state_of (addChild this [child] s)) child) = Some this \<and>
         (\<forall>c. renderGroup (containers (state_of (addChild this [child] s)) c) =
                renderGroup (containers s c)) \<and>
         (\<forall>g. memberChildren (groups (state_of (addChild this [child] s)) g) =
                memberChildren (groups s g)) \<and>
         (\<forall>g. structureDidChange (groups (state_of (addChild this [child] s)) g) =
                (structureDidChange (groups s g) \<or>
                 renderGroup (containers s this) = Some g \<and>
                 \<not> isRenderGroupRoot (containers s this)))"
proof -
  from assms have eq: "addChild this [child] s =
           Done child
             (mark_structure this
                (upd_c this (\<lambda>n. n\<lparr>children := remove1 child (children n) @ [child]\<rparr>) s))"
    by (simp add: addChild_single addChild_one_def Let_def splice1_indexOf mark_structure_def
        split: option.split)
  show ?thesis
    unfolding eq using assms
    by (auto simp add: mark_structure_def split: option.split)
qed

text \<open>The theorem at \<open>scene_siblings\<close>: child 2 of node 0 is added again.\<close>

theorem addChild_existing_child_witness:
  "parent (containers scene_siblings 2) = Some 0 \<and>
   2 \<in> set (children (containers scene_siblings 0)) \<and>
   children (containers (state_of (addChild 0 [2] scene_siblings)) 0) = [3, 4, 2] \<and>
   parent (containers (state_of (addChild 0 [2] scene_siblings)) 2) = Some 0 \<and>
   renderGroup (containers (state_of (addChild 0 [2] scene_siblings)) 2) = Some 5 \<and>
   \<not> structureDidChange (groups scene_siblings 5) \<and>
   structureDidChange (groups (state_of (addChild 0 [2] scene_siblings)) 5)"
proof -
  have p: "parent (containers scene_siblings 2) = Some 0"
    and c: "2 \<in> set (children (containers scene_siblings 0))"
    by (simp_all add: scene_siblings_def)
  have more: "children (containers scene_siblings 0) = [2, 3, 4]"
    "renderGroup (containers scene_siblings 0) = Some 5"
    "renderGroup (containers scene_siblings 2) = Some 5"
    "\<not> isRenderGroupRoot (containers scene_siblings 0)"
    "\<not> structureDidChange (groups scene_siblings 5)"
    by (simp_all add: scene_siblings_def newContainer_def)
  note inst = addChild_existing_child [OF p c]
  from inst [THEN conjunct2] p c more show ?thesis
    by simp
qed

text \<open>
  Claim C2 fails at \<open>scene_foreign_child\<close>.  Node 2 is a child of node 1 and not of
  node 0; \<^verbatim>\<open>removeChild\<close> on node 0 returns it, leaves the children of node 0 as they
  were and notifies with index -1, but it has cleared the parent pointer of node 2, which
  node 1 still lists as its child.
\<close>

theorem removeChild_of_foreign_child:
  "parent (containers scene_foreign_child 2) = Some 1 \<and>
   children (containers scene_foreign_child 1) = [2] \<and>
   2 \<notin> set (children (containers scene_foreign_child 0)) \<and>
   (\<exists>s'. removeChild 0 [2] scene_foreign_child = Done 2 s' \<and>
         children (containers s' 0) = children (containers scene_foreign_child 0) \<and>
         emitted s' =
           emitted scene_foreign_child @ [(0, ChildRemoved 2 0 (-1)), (2, Removed 0)] \<and>
         parent (containers s' 2) = None \<and>
         children (containers s' 1) = [2])"
  by (simp add: scene_foreign_child_def removeChild_single addChild_single removeChild_one_def
      addChild_one_def newContainer_def Let_def)

text \<open>
  Claim C1 fails after \<^verbatim>\<open>Q.addChild(N)\<close> and \<^verbatim>\<open>P.removeChild(N)\<close> on new
  containers P = 0, Q = 1, N = 2: N is still in the children of Q but its parent pointer
  is \<^verbatim>\<open>null\<close>.  Adding N to Q once more then lists it twice.
\<close>

theorem removeChild_breaks_link:
  "2 \<in> set (children (containers
        (state_of (removeChild 0 [2] (state_of (addChild 1 [2] init_state)))) 1)) \<and>
   parent (containers
        (state_of (removeChild 0 [2] (state_of (addChild 1 [2] init_state)))) 2) \<noteq> Some 1 \<and>
   children (containers
        (state_of (addChild 1 [2]
           (state_of (removeChild 0 [2] (state_of (addChild 1 [2] init_state)))))) 1) = [2, 2]"
  by (simp add: removeChild_single addChild_single removeChild_one_def addChild_one_def
      newContainer_def Let_def splice1_def)

subsection \<open>Destroying a subtree\<close>

lemma detaches_refl: "detaches R s s"
  by (simp add: detaches_def)

lemma detachesD:
  assumes "detaches R s s'"
  shows "destroyed (containers s x) \<Longrightarrow> destroyed (containers s' x)"
    and "set (children (containers s' x)) \<subseteq> set (children (containers s x))"
    and "parent (containers s' x) = None \<or> parent (containers s' x) = parent (containers s x)"
    and "isRenderGroupRoot (containers s' x) = isRenderGroupRoot (containers s x)"
    and "renderGroup (containers s' x) = None \<or>
         renderGroup (containers s' x) = renderGroup (containers s x)"
    and "x \<in> R \<Longrightarrow> isRenderGroupRoot (containers s x) \<Longrightarrow>
         renderGroup (containers s' x) = renderGroup (containers s x)"
  using assms unfolding detaches_def by blast+

lemma detaches_trans:
  assumes "detaches R s s'" and "detaches R s' s''"
  shows "detaches R s s''"
  unfolding detaches_def
proof (intro allI conjI impI)
  fix x
  show "destroyed (containers s'' x)" if "destroyed (containers s x)"
    using that detachesD(1) [OF assms(1)] detachesD(1) [OF assms(2)] by blast
  show "set (children (containers s'' x)) \<subseteq> set (children (containers s x))"
    using detachesD(2) [OF assms(1), of x] detachesD(2) [OF assms(2), of x] by blast
  show "parent (containers s'' x) = None \<or> parent (containers s'' x) = parent (containers s x)"
    using detachesD(3) [OF assms(1), of x] detachesD(3) [OF assms(2), of x] by auto
  show "isRenderGroupRoot (containers s'' x) = isRenderGroupRoot (containers s x)"
    using detachesD(4) [OF assms(1), of x] detachesD(4) [OF assms(2), of x] by simp
  show "renderGroup (containers s'' x) = None \<or>
        renderGroup (containers s'' x) = renderGroup (containers s x)"
    using detachesD(5) [OF assms(1), of x] detachesD(5) [OF assms(2), of x] by auto
  show "renderGroup (containers s'' x) = renderGroup (containers s x)"
    if "x \<in> R \<and> isRenderGroupRoot (containers s x)"
    using that detachesD(6) [OF assms(1), of x] detachesD(6) [OF assms(2), of x]
      detachesD(4) [OF assms(1), of x] by simp
qed

lemma advancesD:
  assumes "advances R s s'"
  shows "detaches R s s'"
    and "destroyed (containers s' x) \<Longrightarrow> \<not> destroyed (containers s x) \<Longrightarrow>
         parent (containers s' x) = None \<and> children (containers s' x) = []"
    and "destroyed_events s' x =
           destroyed_events s x +
             (if destroyed (containers s' x) \<and> \<not> destroyed (containers s x) then 1 else 0)"
  using assms unfolding advances_def by blast+

lemma advancesI:
  assumes "detaches R s s'"
    and "\<And>x. destroyed (containers s' x) \<Longrightarrow> \<not> destroyed (containers s x) \<Longrightarrow>
         parent (containers s' x) = None \<and> children (containers s' x) = []"
    and "\<And>x. destroyed_events s' x =
           destroyed_events s x +
             (if destroyed (containers s' x) \<and> \<not> destroyed (containers s x) then 1 else 0)"
  shows "advances R s s'"
  unfolding advances_def using assms by blast

lemma advances_refl: "advances R s s"
  by (rule advancesI) (simp_all add: detaches_refl)

lemma advances_trans:
  assumes "advances R s s'" and "advances R s' s''"
  shows "advances R s s''"
proof (rule advancesI)
  note d1 = advancesD(1) [OF assms(1)] and d2 = advancesD(1) [OF assms(2)]
  show "detaches R s s''" using d1 d2 by (rule detaches_trans)
  fix x
  show "parent (containers s'' x) = None \<and> children (containers s'' x) = []"
    if "destroyed (containers s'' x)" "\<not> destroyed (containers s x)"
  proof (cases "destroyed (containers s' x)")
    case True
    with that advancesD(2) [OF assms(1), of x]
    have "parent (containers s' x) = None" "children (containers s' x) = []"
      by simp_all
    with detachesD(2) [OF d2, of x] detachesD(3) [OF d2, of x] show ?thesis by auto
  next
    case False
    with that advancesD(2) [OF assms(2), of x] show ?thesis by simp
  qed
  have a: "destroyed_events s' x = destroyed_events s x +
             (if destroyed (containers s' x) \<and> \<not> destroyed (containers s x) then 1 else 0)"
    by (rule advancesD(3) [OF assms(1)])
  have b: "destroyed_events s'' x = destroyed_events s' x +
             (if destroyed (containers s'' x) \<and> \<not> destroyed (containers s' x) then 1 else 0)"
    by (rule advancesD(3) [OF assms(2)])
  have m1: "destroyed (containers s x) \<Longrightarrow> destroyed (containers s' x)"
    by (rule detachesD(1) [OF d1])
  have m2: "destroyed (containers s' x) \<Longrightarrow> destroyed (containers s'' x)"
    by (rule detachesD(1) [OF d2])
  show "destroyed_events s'' x =
           destroyed_events s x +
             (if destroyed (containers s'' x) \<and> \<not> destroyed (containers s x) then 1 else 0)"
    unfolding b a using m1 m2
    by (cases "destroyed (containers s x)"; cases "destroyed (containers s' x)";
        cases "destroyed (containers s'' x)"; simp)
qed

lemma detaches_closed:
  "subtree_closed R s \<Longrightarrow> detaches R s s' \<Longrightarrow> subtree_closed R s'"
  unfolding subtree_closed_def detaches_def by blast

lemma detaches_roots:
  assumes "roots_own_group R s" and "detaches R s s'"
  shows "roots_own_group R s'"
  unfolding roots_own_group_def
proof (intro ballI impI conjI allI)
  fix c assume c: "c \<in> R" and r: "isRenderGroupRoot (containers s' c)"
  from r have r0: "isRenderGroupRoot (containers s c)"
    using detachesD(4) [OF assms(2), of c] by simp
  with c have keep: "renderGroup (containers s' c) = renderGroup (containers s c)"
    using detachesD(6) [OF assms(2), of c] by simp
  from assms(1) c r0 have own: "renderGroup (containers s c) \<noteq> None"
    unfolding roots_own_group_def by blast
  with keep show "renderGroup (containers s' c) \<noteq> None" by simp
  fix p assume rel: "parent (containers s' c) = Some p \<or> c \<in> set (children (containers s' p))"
  with detachesD(3) [OF assms(2), of c] detachesD(2) [OF assms(2), of p]
  have "parent (containers s c) = Some p \<or> c \<in> set (children (containers s p))"
    by auto
  with assms(1) c r0 have ne: "renderGroup (containers s p) \<noteq> renderGroup (containers s c)"
    unfolding roots_own_group_def by blast
  with own keep detachesD(5) [OF assms(2), of p]
  show "renderGroup (containers s' p) \<noteq> renderGroup (containers s' c)"
    by auto
qed

lemma advances_tidy:
  assumes "tidy s" and "advances R s s'"
  shows "tidy s'"
  unfolding tidy_def
proof (intro allI impI)
  fix c assume d: "destroyed (containers s' c)"
  note dt = advancesD(1) [OF assms(2)]
  show "parent (containers s' c) = None \<and> children (containers s' c) = []"
  proof (cases "destroyed (containers s c)")
    case True
    with assms(1) have "parent (containers s c) = None" "children (containers s c) = []"
      unfolding tidy_def by blast+
    with detachesD(2) [OF dt, of c] detachesD(3) [OF dt, of c] show ?thesis by auto
  next
    case False
    with d advancesD(2) [OF assms(2), of c] show ?thesis by simp
  qed
qed

lemma rg_removeChild_containers:
  "containers (rg_removeChild g child s) =
     (containers s)
       (child := (containers s child)
          \<lparr>renderGroup := (if renderGroup (containers s child) = Some g then None
                           else renderGroup (containers s child))\<rparr>)"
  by (auto simp add: rg_removeChild_def Let_def split: option.split)

lemma rg_removeChild_emitted [simp]: "emitted (rg_removeChild g child s) = emitted s"
  by (simp add: rg_removeChild_def Let_def split: option.split)

lemma set_splice1: "set (splice1 xs i) \<subseteq> set xs"
proof -
  have "set (take n xs) \<subseteq> set xs" "set (drop m xs) \<subseteq> set xs" for n m
    by (rule set_take_subset, rule set_drop_subset)
  then show ?thesis by (auto simp add: splice1_def Let_def)
qed

lemma removeChild_one_detaches:
  assumes "c \<in> R \<Longrightarrow> isRenderGroupRoot (containers s c) \<Longrightarrow>
             renderGroup (containers s p) \<noteq> renderGroup (containers s c)"
  shows "detaches R s (snd (removeChild_one p c s))"
  using assms set_splice1 [of "children (containers s p)" "indexOf (children (containers s p)) c"]
  unfolding detaches_def
  by (auto simp add: removeChild_one_def Let_def rg_removeChild_containers split: option.split)

lemma removeChild_one_frame:
  "destroyed (containers (snd (removeChild_one p c s)) x) = destroyed (containers s x)"
  "destroyed_events (snd (removeChild_one p c s)) x = destroyed_events s x"
  by (auto simp add: removeChild_one_def Let_def rg_removeChild_containers destroyed_events_def
      split: option.split)

lemma detach_child_detaches:
  assumes "c \<in> R \<Longrightarrow> isRenderGroupRoot (containers s c) \<Longrightarrow>
             renderGroup (containers s p) \<noteq> renderGroup (containers s c)"
  shows "detaches R s (detach_child p c s)"
  using assms unfolding detaches_def
  by (auto simp add: detach_child_def rg_removeChild_containers split: option.split)

lemma detach_child_frame:
  "destroyed (containers (detach_child p c s) x) = destroyed (containers s x)"
  "children (containers (detach_child p c s) x) = children (containers s x)"
  "emitted (detach_child p c s) = emitted s"
  by (auto simp add: detach_child_def rg_removeChild_containers split: option.split)

lemma fold_detach_frame:
  "destroyed (containers (fold (detach_child p) xs s) x) = destroyed (containers s x)"
  "children (containers (fold (detach_child p) xs s) x) = children (containers s x)"
  "emitted (fold (detach_child p) xs s) = emitted s"
  by (induction xs arbitrary: s) (simp_all add: detach_child_frame)

lemma fold_detach_detaches:
  assumes "roots_own_group R s" and "set xs \<subseteq> set (children (containers s p))"
  shows "detaches R s (fold (detach_child p) xs s)"
  using assms
proof (induction xs arbitrary: s)
  case Nil
  show ?case by (simp add: detaches_refl)
next
  case (Cons x xs)
  from Cons.prems have x: "x \<in> set (children (containers s p))" by simp
  have step: "detaches R s (detach_child p x s)"
  proof (rule detach_child_detaches)
    assume "x \<in> R" "isRenderGroupRoot (containers s x)"
    with Cons.prems(1) x show "renderGroup (containers s p) \<noteq> renderGroup (containers s x)"
      unfolding roots_own_group_def by blast
  qed
  then have roots: "roots_own_group R (detach_child p x s)"
    using Cons.prems(1) by (rule detaches_roots [rotated])
  from Cons.prems(2) have "set xs \<subseteq> set (children (containers (detach_child p x s) p))"
    by (simp add: detach_child_frame)
  with roots have "detaches R (detach_child p x s) (fold (detach_child p) xs (detach_child p x s))"
    by (rule Cons.IH)
  with step show ?case by (simp add: detaches_trans)
qed

lemma set_remove1_super: "set xs \<subseteq> insert c (set (remove1 c xs))"
  by (induction xs) auto

lemma removeChild_one_children:
  "set (children (containers s x)) \<subseteq>
     insert c (set (children (containers (snd (removeChild_one p c s)) x)))"
proof (cases "c \<in> set (children (containers s p))")
  case True
  then have "0 \<le> indexOf (children (containers s p)) c" by (rule indexOf_in)
  with True set_remove1_super [of "children (containers s p)" c] show ?thesis
    by (auto simp add: removeChild_one_def Let_def rg_removeChild_containers splice1_indexOf
        split: option.split)
next
  case False
  then have "indexOf (children (containers s p)) c = -1" by (rule indexOf_notin)
  then show ?thesis
    by (auto simp add: removeChild_one_def Let_def)
qed

lemma removeFromParent_detaches:
  assumes "roots_own_group R s" and "c \<in> R"
  shows "detaches R s (removeFromParent c s)"
proof (cases "parent (containers s c)")
  case None
  then show ?thesis by (simp add: removeFromParent_def detaches_refl)
next
  case (Some p)
  have "detaches R s (snd (removeChild_one p c s))"
  proof (rule removeChild_one_detaches)
    assume "isRenderGroupRoot (containers s c)"
    with assms Some show "renderGroup (containers s p) \<noteq> renderGroup (containers s c)"
      unfolding roots_own_group_def by blast
  qed
  with Some show ?thesis by (simp add: removeFromParent_def)
qed

lemma removeFromParent_frame:
  "destroyed (containers (removeFromParent c s) x) = destroyed (containers s x)"
  "destroyed_events (removeFromParent c s) x = destroyed_events s x"
  "set (children (containers s x)) \<subseteq>
     insert c (set (children (containers (removeFromParent c s) x)))"
  using removeChild_one_children [of s x c]
  by (auto simp add: removeFromParent_def removeChild_one_frame split: option.split)

lemma destroyed_events_simps [simp]:
  "destroyed_events (upd_c c f s) x = destroyed_events s x"
  "destroyed_events (upd_g g h s) x = destroyed_events s x"
  "destroyed_events (emit c e s) x =
     destroyed_events s x + (if c = x \<and> e = Destroyed then 1 else 0)"
  by (simp_all add: destroyed_events_def)

lemma fold_detach_events:
  "destroyed_events (fold (detach_child p) xs s) x = destroyed_events s x"
  by (simp add: destroyed_events_def fold_detach_frame)

lemma destroy_head_ok:
  assumes c: "c \<in> R" and roots: "roots_own_group R s"
    and alive: "\<not> destroyed (containers s c)"
  shows "\<exists>old s1. destroy_head c s = Done old s1 \<and>
           set old \<subseteq> set (children (containers s c)) \<and>
           set (children (containers s c)) \<subseteq> insert c (set old) \<and>
           advances R s s1 \<and> destroyed (containers s1 c)"
proof -
  define sa where "sa = upd_c c (\<lambda>n. n\<lparr>destroyed := True\<rparr>) s"
  define sb where "sb = removeFromParent c sa"
  define sc where "sc = upd_c c
                 (\<lambda>n. n\<lparr>parent := None, u_mask := None, u_filters := None, effects := None,
                        u_position := None, u_scale := None, u_pivot := None,
                        u_skew := None\<rparr>) sb"
  define sd where "sd = (case renderGroup (containers sc c) of
                        None \<Rightarrow> sc
                      | Some g \<Rightarrow>
                          if isRenderGroupRoot (containers sc c)
                          then upd_g g (\<lambda>r. r\<lparr>proxyRenderable := None\<rparr>) sc else sc)"
  define se where "se = emit c Destroyed sd"
  define old where "old = children (containers se c)"
  define sf where "sf = fold (detach_child c) old se"
  define sg where "sg = upd_c c (\<lambda>n. n\<lparr>children := []\<rparr>) sf"
  have head: "destroy_head c s =
      (if isRenderGroupRoot (containers sc c) \<and> renderGroup (containers sc c) = None
       then Threw TypeError sc else Done old sg)"
    by (simp only: destroy_head_def Let_def removeChildren_all_def sa_def sb_def sc_def sd_def
        se_def old_def sf_def sg_def prod.case)
  have d1: "detaches R s sa" by (simp add: detaches_def sa_def)
  have r1: "roots_own_group R sa" using roots d1 by (rule detaches_roots)
  have d2: "detaches R sa sb" unfolding sb_def using r1 c by (rule removeFromParent_detaches)
  have d3: "detaches R sb sc" by (simp add: detaches_def sc_def)
  have csd: "containers sd = containers sc" by (simp add: sd_def split: option.split)
  have d4: "detaches R sc sd" by (simp add: detaches_def csd)
  have d5: "detaches R sd se" by (simp add: detaches_def se_def)
  have d05: "detaches R s se"
    using d1 d2 d3 d4 d5 by (blast intro: detaches_trans)
  have r3: "roots_own_group R sc"
    using roots by (rule detaches_roots) (blast intro: detaches_trans d1 d2 d3)
  have r5: "roots_own_group R se" using roots d05 by (rule detaches_roots)
  have d6: "detaches R se sf"
    unfolding sf_def using r5 by (rule fold_detach_detaches) (simp add: old_def)
  have d7: "detaches R sf sg" by (simp add: detaches_def sg_def)
  have d: "detaches R s sg" using d05 d6 d7 by (blast intro: detaches_trans)
  have nothrow: "\<not> (isRenderGroupRoot (containers sc c) \<and> renderGroup (containers sc c) = None)"
    using r3 c unfolding roots_own_group_def by blast
  have des: "destroyed (containers sg x) = (x = c \<or> destroyed (containers s x))" for x
    by (simp add: sg_def sf_def fold_detach_frame se_def csd sc_def sb_def
        removeFromParent_frame sa_def)
  have ev: "destroyed_events sg x = destroyed_events s x + (if x = c then 1 else 0)" for x
  proof -
    have "destroyed_events sd x = destroyed_events sc x"
      by (simp add: sd_def split: option.split)
    then have "destroyed_events sg x = destroyed_events sb x + (if x = c then 1 else 0)"
      by (auto simp add: sg_def sf_def fold_detach_events se_def sc_def)
    then show ?thesis by (simp add: sb_def removeFromParent_frame sa_def)
  qed
  have par: "parent (containers sg c) = None"
  proof -
    have "parent (containers sc c) = None" by (simp add: sc_def)
    moreover have "detaches R sc sg" using d4 d5 d6 d7 by (blast intro: detaches_trans)
    ultimately show ?thesis using detachesD(3) [of R sc sg c] by auto
  qed
  have chi: "children (containers sg c) = []" by (simp add: sg_def)
  have old_eq: "old = children (containers sb c)"
    by (simp add: old_def se_def csd sc_def)
  have sub: "set old \<subseteq> set (children (containers s c))"
    using detachesD(2) [OF d2, of c] by (simp add: old_eq sa_def)
  have sup: "set (children (containers s c)) \<subseteq> insert c (set old)"
    using removeFromParent_frame(3) [of sa c c] by (simp add: old_eq sb_def sa_def)
  have adv: "advances R s sg"
  proof (rule advancesI)
    show "detaches R s sg" by (rule d)
    fix x
    show "parent (containers sg x) = None \<and> children (containers sg x) = []"
      if "destroyed (containers sg x)" "\<not> destroyed (containers s x)"
      using that par chi by (simp add: des)
    show "destroyed_events sg x = destroyed_events s x +
        (if destroyed (containers sg x) \<and> \<not> destroyed (containers s x) then 1 else 0)"
      using alive by (auto simp add: ev des)
  qed
  from head nothrow sub sup adv des [of c] show ?thesis by simp
qed

lemma destroy_view_frame:
  "destroyed (containers (destroy_view c s) x) = destroyed (containers s x)"
  "children (containers (destroy_view c s) x) = children (containers s x)"
  "parent (containers (destroy_view c s) x) = parent (containers s x)"
  "isRenderGroupRoot (containers (destroy_view c s) x) = isRenderGroupRoot (containers s x)"
  "renderGroup (containers (destroy_view c s) x) = renderGroup (containers s x)"
  "destroyed_events (destroy_view c s) x = destroyed_events s x"
  by (simp_all add: destroy_view_def)

lemma destroy_view_advances: "advances R s (destroy_view c s)"
  by (rule advancesI) (simp_all add: detaches_def destroy_view_frame)

lemma destroy_each_Nil: "destroy_each opts [] s = Some (Done () s)"
  by (subst destroy_each.simps) simp

lemma destroy_each_Cons:
  "destroy_each opts (c # rest) s =
     Option.bind (destroy opts c s)
       (\<lambda>r. case r of
              Threw e s' \<Rightarrow> Some (Threw e s')
            | Done u s' \<Rightarrow> destroy_each opts rest s')"
  by (subst destroy_each.simps) (simp add: destroy_def)

lemma alive_mono:
  assumes "finite R" and "detaches R s s'"
  shows "card {c \<in> R. \<not> destroyed (containers s' c)} \<le> card {c \<in> R. \<not> destroyed (containers s c)}"
proof (rule card_mono)
  show "finite {c \<in> R. \<not> destroyed (containers s c)}" using assms(1) by simp
  show "{c \<in> R. \<not> destroyed (containers s' c)} \<subseteq> {c \<in> R. \<not> destroyed (containers s c)}"
    using detachesD(1) [OF assms(2)] by blast
qed

lemma alive_less:
  assumes "finite R" and "detaches R s s'" and "c \<in> R"
    and "\<not> destroyed (containers s c)" and "destroyed (containers s' c)"
  shows "card {c \<in> R. \<not> destroyed (containers s' c)} < card {c \<in> R. \<not> destroyed (containers s c)}"
proof (rule psubset_card_mono)
  show "finite {c \<in> R. \<not> destroyed (containers s c)}" using assms(1) by simp
  show "{c \<in> R. \<not> destroyed (containers s' c)} \<subset> {c \<in> R. \<not> destroyed (containers s c)}"
    using detachesD(1) [OF assms(2)] assms(3-5) by blast
qed

text \<open>One call of destroy, given that the loop over the former children ends well.\<close>

lemma destroy_step:
  assumes c: "c \<in> R" and closed: "subtree_closed R s" and roots: "roots_own_group R s"
    and alive: "\<not> destroyed (containers s c)"
    and loop: "\<And>old s1. set old \<subseteq> R \<Longrightarrow> detaches R s s1 \<Longrightarrow> destroyed (containers s1 c) \<Longrightarrow>
                 destroyChildren opts \<Longrightarrow>
                 \<exists>s2. destroy_each opts old s1 = Some (Done () s2) \<and> advances R s1 s2 \<and>
                      (\<forall>x\<in>set old. destroyed (containers s2 x))"
  shows "\<exists>s'. destroy opts c s = Some (Done () s') \<and> advances R s s' \<and>
              destroyed (containers s' c) \<and>
              (destroyChildren opts \<longrightarrow>
                 (\<forall>x\<in>set (children (containers s c)). destroyed (containers s' x)))"
proof -
  from destroy_head_ok [OF c roots alive] obtain old s1 where
    head: "destroy_head c s = Done old s1"
    and sub: "set old \<subseteq> set (children (containers s c))"
    and sup: "set (children (containers s c)) \<subseteq> insert c (set old)"
    and adv1: "advances R s s1" and des1: "destroyed (containers s1 c)"
    by blast
  note det1 = advancesD(1) [OF adv1]
  from closed c sub have oldR: "set old \<subseteq> R" unfolding subtree_closed_def by blast
  show ?thesis
  proof (cases "destroyChildren opts")
    case True
    from loop [OF oldR det1 des1 True] obtain s2 where
      each: "destroy_each opts old s1 = Some (Done () s2)" and adv2: "advances R s1 s2"
      and all: "\<forall>x\<in>set old. destroyed (containers s2 x)"
      by blast
    let ?s3 = "destroy_view c s2"
    have run: "destroy opts c s = Some (Done () ?s3)"
      using alive head True each by (simp add: destroy_def)
    have adv: "advances R s ?s3"
      using adv1 adv2 destroy_view_advances [of R s2 c] by (blast intro: advances_trans)
    have desc: "destroyed (containers ?s3 c)"
      using des1 detachesD(1) [OF advancesD(1) [OF adv2], of c]
      by (simp add: destroy_view_frame)
    have "destroyed (containers ?s3 x)" if "x \<in> set (children (containers s c))" for x
    proof (cases "x = c")
      case True
      with desc show ?thesis by simp
    next
      case False
      with that sup have "x \<in> set old" by blast
      with all show ?thesis by (simp add: destroy_view_frame)
    qed
    with run adv desc show ?thesis by blast
  next
    case False
    let ?s3 = "destroy_view c s1"
    have run: "destroy opts c s = Some (Done () ?s3)"
      using alive head False by (simp add: destroy_def)
    have adv: "advances R s ?s3"
      using adv1 destroy_view_advances [of R s1 c] by (blast intro: advances_trans)
    have desc: "destroyed (containers ?s3 c)"
      using des1 by (simp add: destroy_view_frame)
    from run adv desc False show ?thesis by blast
  qed
qed

lemma destroy_each_total:
  assumes fin: "finite R"
  shows "card {c \<in> R. \<not> destroyed (containers s c)} < n \<Longrightarrow> set cs \<subseteq> R \<Longrightarrow>
         subtree_closed R s \<Longrightarrow> roots_own_group R s \<Longrightarrow>
         \<exists>s'. destroy_each opts cs s = Some (Done () s') \<and> advances R s s' \<and>
              (\<forall>c\<in>set cs. destroyed (containers s' c))"
proof (induction n arbitrary: s cs)
  case 0
  then show ?case by simp
next
  case (Suc n)
  from Suc.prems show ?case
  proof (induction cs arbitrary: s)
    case Nil
    then show ?case by (simp add: destroy_each_Nil advances_refl)
  next
    case (Cons c rest)
    from Cons.prems have cR: "c \<in> R" and restR: "set rest \<subseteq> R" by simp_all
    have one: "\<exists>s1. destroy opts c s = Some (Done () s1) \<and> advances R s s1 \<and>
                 destroyed (containers s1 c)"
    proof (cases "destroyed (containers s c)")
      case True
      then show ?thesis by (auto simp add: destroy_def advances_refl)
    next
      case False
      have "\<exists>s'. destroy opts c s = Some (Done () s') \<and> advances R s s' \<and>
              destroyed (containers s' c) \<and>
              (destroyChildren opts \<longrightarrow>
                 (\<forall>x\<in>set (children (containers s c)). destroyed (containers s' x)))"
      proof (rule destroy_step [OF cR Cons.prems(3) Cons.prems(4) False])
        fix old s1
        assume oldR: "set old \<subseteq> R" and det: "detaches R s s1"
          and des: "destroyed (containers s1 c)"
        have "card {c \<in> R. \<not> destroyed (containers s1 c)} <
              card {c \<in> R. \<not> destroyed (containers s c)}"
          using fin det cR False des by (rule alive_less)
        with Cons.prems(1) have small: "card {c \<in> R. \<not> destroyed (containers s1 c)} < n"
          by simp
        have "subtree_closed R s1" using Cons.prems(3) det by (rule detaches_closed)
        moreover have "roots_own_group R s1" using Cons.prems(4) det by (rule detaches_roots)
        ultimately show "\<exists>s2. destroy_each opts old s1 = Some (Done () s2) \<and> advances R s1 s2 \<and>
                      (\<forall>x\<in>set old. destroyed (containers s2 x))"
          using Suc.IH [OF small oldR] by blast
      qed
      then show ?thesis by blast
    qed
    then obtain s1 where run1: "destroy opts c s = Some (Done () s1)"
      and adv1: "advances R s s1" and des1: "destroyed (containers s1 c)"
      by blast
    note det1 = advancesD(1) [OF adv1]
    have "card {c \<in> R. \<not> destroyed (containers s1 c)} \<le>
          card {c \<in> R. \<not> destroyed (containers s c)}"
      using fin det1 by (rule alive_mono)
    with Cons.prems(1) have small: "card {c \<in> R. \<not> destroyed (containers s1 c)} < Suc n"
      by simp
    have closed1: "subtree_closed R s1" using Cons.prems(3) det1 by (rule detaches_closed)
    have roots1: "roots_own_group R s1" using Cons.prems(4) det1 by (rule detaches_roots)
    from Cons.IH [OF small restR closed1 roots1] obtain s2 where
      run2: "destroy_each opts rest s1 = Some (Done () s2)" and adv2: "advances R s1 s2"
      and all2: "\<forall>x\<in>set rest. destroyed (containers s2 x)"
      by blast
    have run: "destroy_each opts (c # rest) s = Some (Done () s2)"
      by (simp add: destroy_each_Cons run1 run2)
    have adv: "advances R s s2" using adv1 adv2 by (rule advances_trans)
    have "destroyed (containers s2 c)"
      using des1 detachesD(1) [OF advancesD(1) [OF adv2], of c] by simp
    with run adv all2 show ?case by simp
  qed
qed

text \<open>
  Claim C8.  \<^verbatim>\<open>destroy\<close> on a destroyed node returns at once and leaves the store as
  it is.  On a node that is not destroyed, with the children option set, in a store where
  the node has finitely many descendants, destroyed nodes have neither parent nor
  children, and render-group roots among the descendants own a group that is not their
  parent's: \<^verbatim>\<open>destroy\<close> returns without an exception; a second call changes nothing;
  and every former child is destroyed, has no parent and no children, and has emitted
  \<^verbatim>\<open>destroyed\<close> exactly once more than before (not at all when it was destroyed
  already).
\<close>

theorem destroy_children:
  "(destroyed (containers s this) \<longrightarrow> destroy options this s = Some (Done () s)) \<and>
   (finite R \<and> this \<in> R \<and> subtree_closed R s \<and> roots_own_group R s \<and> tidy s \<and>
    \<not> destroyed (containers s this) \<and> destroyChildren options \<longrightarrow>
      (\<exists>s'. destroy options this s = Some (Done () s') \<and>
            destroy options this s' = Some (Done () s') \<and>
            (\<forall>c\<in>set (children (containers s this)).
                destroyed (containers s' c) \<and> parent (containers s' c) = None \<and>
                children (containers s' c) = [] \<and>
                destroyed_events s' c =
                  destroyed_events s c + (if destroyed (containers s c) then 0 else 1))))"
proof (intro conjI impI)
  assume "destroyed (containers s this)"
  then show "destroy options this s = Some (Done () s)" by (simp add: destroy_def)
next
  assume hyps: "finite R \<and> this \<in> R \<and> subtree_closed R s \<and> roots_own_group R s \<and> tidy s \<and>
    \<not> destroyed (containers s this) \<and> destroyChildren options"
  then have fin: "finite R" and inR: "this \<in> R" and closed: "subtree_closed R s"
    and roots: "roots_own_group R s" and tidy: "tidy s"
    and alive: "\<not> destroyed (containers s this)" and opt: "destroyChildren options"
    by simp_all
  have "\<exists>s'. destroy options this s = Some (Done () s') \<and> advances R s s' \<and>
              destroyed (containers s' this) \<and>
              (destroyChildren options \<longrightarrow>
                 (\<forall>x\<in>set (children (containers s this)). destroyed (containers s' x)))"
  proof (rule destroy_step [OF inR closed roots alive])
    fix old s1
    assume oldR: "set old \<subseteq> R" and det: "detaches R s s1"
    have "subtree_closed R s1" using closed det by (rule detaches_closed)
    moreover have "roots_own_group R s1" using roots det by (rule detaches_roots)
    ultimately show "\<exists>s2. destroy_each options old s1 = Some (Done () s2) \<and> advances R s1 s2 \<and>
                      (\<forall>x\<in>set old. destroyed (containers s2 x))"
      using destroy_each_total [OF fin lessI oldR] by blast
  qed
  with opt obtain s' where run: "destroy options this s = Some (Done () s')"
    and adv: "advances R s s'" and des: "destroyed (containers s' this)"
    and all: "\<forall>x\<in>set (children (containers s this)). destroyed (containers s' x)"
    by blast
  have again: "destroy options this s' = Some (Done () s')"
    using des by (simp add: destroy_def)
  have tidy': "tidy s'" using tidy adv by (rule advances_tidy)
  have "destroyed (containers s' c) \<and> parent (containers s' c) = None \<and>
        children (containers s' c) = [] \<and>
        destroyed_events s' c = destroyed_events s c + (if destroyed (containers s c) then 0 else 1)"
    if "c \<in> set (children (containers s this))" for c
  proof -
    from all that have d: "destroyed (containers s' c)" by blast
    with tidy' have "parent (containers s' c) = None" "children (containers s' c) = []"
      unfolding tidy_def by blast+
    moreover from advancesD(3) [OF adv, of c] d
    have "destroyed_events s' c = destroyed_events s c + (if destroyed (containers s c) then 0 else 1)"
      by simp
    ultimately show ?thesis using d by simp
  qed
  with run again show "\<exists>s'. destroy options this s = Some (Done () s') \<and>
            destroy options this s' = Some (Done () s') \<and>
            (\<forall>c\<in>set (children (containers s this)).
                destroyed (containers s' c) \<and> parent (containers s' c) = None \<and>
                children (containers s' c) = [] \<and>
                destroyed_events s' c =
                  destroyed_events s c + (if destroyed (containers s c) then 0 else 1))"
    by blast
qed

text \<open>The theorem at \<open>scene_tree\<close>, where node 0 is destroyed with its children.\<close>

theorem destroy_children_witness:
  "\<exists>s'. destroy (AsBoolean True) 0 scene_tree = Some (Done () s') \<and>
        destroy (AsBoolean True) 0 s' = Some (Done () s') \<and>
        destroyed (containers s' 2) \<and> parent (containers s' 2) = None \<and>
        children (containers s' 2) = [] \<and> destroyed_events s' 2 = 1 \<and>
        destroyed (containers s' 3) \<and> parent (containers s' 3) = None \<and>
        children (containers s' 3) = [] \<and> destroyed_events s' 3 = 1"
proof -
  have hyps: "finite {0, 2, 3, 4 :: nat} \<and> 0 \<in> {0, 2, 3, 4 :: nat} \<and>
      subtree_closed {0, 2, 3, 4} scene_tree \<and> roots_own_group {0, 2, 3, 4} scene_tree \<and>
      tidy scene_tree \<and> \<not> destroyed (containers scene_tree 0) \<and>
      destroyChildren (AsBoolean True)"
    by (simp add: scene_tree_def subtree_closed_def roots_own_group_def tidy_def
        newContainer_def)
  have facts: "children (containers scene_tree 0) = [2, 3]"
    "\<not> destroyed (containers scene_tree 2)" "\<not> destroyed (containers scene_tree 3)"
    "destroyed_events scene_tree 2 = 0" "destroyed_events scene_tree 3 = 0"
    by (simp_all add: scene_tree_def destroyed_events_def newContainer_def)
  from destroy_children [where s = scene_tree and this = 0 and options = "AsBoolean True"
      and R = "{0, 2, 3, 4}", THEN conjunct2, rule_format, OF hyps] facts
  show ?thesis by simp
qed

subsection \<open>The links between parents and children\<close>

lemma rg_addRenderGroupChild_containers [simp]:
  "containers (rg_addRenderGroupChild g m s) = containers s"
  by (simp add: rg_addRenderGroupChild_def Let_def split: option.split)

lemma rg_removeChild_links [simp]:
  "children (containers (rg_removeChild g c s) x) = children (containers s x)"
  "parent (containers (rg_removeChild g c s) x) = parent (containers s x)"
  by (simp_all add: rg_removeChild_containers)

lemma rg_addChild_links [simp]:
  "children (containers (rg_addChild g c s) x) = children (containers s x)"
  "parent (containers (rg_addChild g c s) x) = parent (containers s x)"
  by (simp_all add: rg_addChild_def Let_def split: option.split)

lemma removeChild_one_links:
  "children (containers (snd (removeChild_one p c s)) x) =
     (if x = p then remove1 c (children (containers s p)) else children (containers s x))"
  "parent (containers (snd (removeChild_one p c s)) x) =
     (if x = c then None else parent (containers s x))"
proof -
  show "children (containers (snd (removeChild_one p c s)) x) =
     (if x = p then remove1 c (children (containers s p)) else children (containers s x))"
  proof (cases "c \<in> set (children (containers s p))")
    case True
    then have "0 \<le> indexOf (children (containers s p)) c" by (rule indexOf_in)
    with True show ?thesis
      by (auto simp add: removeChild_one_def Let_def splice1_indexOf split: option.split)
  next
    case False
    then have "indexOf (children (containers s p)) c = -1" by (rule indexOf_notin)
    with False show ?thesis by (simp add: removeChild_one_def Let_def remove1_idem)
  qed
  show "parent (containers (snd (removeChild_one p c s)) x) =
     (if x = c then None else parent (containers s x))"
    by (auto simp add: removeChild_one_def Let_def split: option.split)
qed

lemma addChild_one_slow:
  assumes "parent (containers s c) \<noteq> Some p"
  shows "children (containers (snd (addChild_one p c s)) x) =
           (let s1 = (case parent (containers s c) of
                        None \<Rightarrow> s
                      | Some q \<Rightarrow> snd (removeChild_one q c s))
            in if x = p then children (containers s1 p) @ [c] else children (containers s1 x))"
    and "parent (containers (snd (addChild_one p c s)) x) =
           (let s1 = (case parent (containers s c) of
                        None \<Rightarrow> s
                      | Some q \<Rightarrow> snd (removeChild_one q c s))
            in if x = c then Some p else parent (containers s1 x))"
  using assms
  by (simp_all add: addChild_one_def Let_def depthOfChildModified_def split: option.split)

lemma addChild_one_links:
  assumes "parent (containers s c) \<noteq> Some p"
  shows "children (containers (snd (addChild_one p c s)) x) =
           (let old = (case parent (containers s c) of
                         None \<Rightarrow> children (containers s x)
                       | Some q \<Rightarrow> if x = q then remove1 c (children (containers s q))
                                   else children (containers s x))
            in if x = p then old @ [c] else old)"
    and "parent (containers (snd (addChild_one p c s)) x) =
           (if x = c then Some p else parent (containers s x))"
proof -
  show "children (containers (snd (addChild_one p c s)) x) =
           (let old = (case parent (containers s c) of
                         None \<Rightarrow> children (containers s x)
                       | Some q \<Rightarrow> if x = q then remove1 c (children (containers s q))
                                   else children (containers s x))
            in if x = p then old @ [c] else old)"
    unfolding addChild_one_slow(1) [OF assms]
    by (cases "parent (containers s c)") (simp_all add: Let_def removeChild_one_links)
  show "parent (containers (snd (addChild_one p c s)) x) =
           (if x = c then Some p else parent (containers s x))"
    unfolding addChild_one_slow(2) [OF assms]
    by (cases "parent (containers s c)") (simp_all add: Let_def removeChild_one_links)
qed

lemma addChild_one_again_links:
  assumes "parent (containers s c) = Some p"
  shows "children (containers (snd (addChild_one p c s)) x) =
           (if x = p
            then splice1 (children (containers s p)) (indexOf (children (containers s p)) c) @ [c]
            else children (containers s x))"
    and "parent (containers (snd (addChild_one p c s)) x) = parent (containers s x)"
  using assms
  by (auto simp add: addChild_one_def Let_def split: option.split)

lemma distinct_remove1_snoc: "distinct xs \<Longrightarrow> distinct (remove1 c xs @ [c])"
  by simp

text \<open>
  What does hold of the links: \<^verbatim>\<open>addChild\<close> keeps them consistent, and so does
  \<^verbatim>\<open>removeChild\<close> of a node whose parent is the receiver or that has no parent.
\<close>

lemma addChild_keeps_links:
  assumes "links_consistent s"
  shows "links_consistent (state_of (addChild p [c] s))"
proof -
  from assms have rel: "\<And>q n. (n \<in> set (children (containers s q))) = (parent (containers s n) = Some q)"
    and dis: "\<And>q. distinct (children (containers s q))"
    unfolding links_consistent_def by blast+
  show ?thesis
  proof (cases "parent (containers s c) = Some p")
    case True
    with rel have mem: "c \<in> set (children (containers s p))" by simp
    have sp: "splice1 (children (containers s p)) (indexOf (children (containers s p)) c) =
                remove1 c (children (containers s p))"
      using mem by (rule splice1_indexOf)
    show ?thesis
      unfolding links_consistent_def addChild_single state_of.simps
      using mem rel dis
      by (auto simp add: addChild_one_again_links [OF True] sp)
  next
    case False
    show ?thesis
      unfolding links_consistent_def addChild_single state_of.simps
      using False rel dis
      by (auto simp add: addChild_one_links [OF False] Let_def split: option.split)
  qed
qed

lemma removeChild_keeps_links:
  assumes "links_consistent s"
    and "parent (containers s c) = Some p \<or> parent (containers s c) = None"
  shows "links_consistent (state_of (removeChild p [c] s))"
proof -
  from assms have rel: "\<And>q n. (n \<in> set (children (containers s q))) = (parent (containers s n) = Some q)"
    and dis: "\<And>q. distinct (children (containers s q))"
    unfolding links_consistent_def by blast+
  show ?thesis
    unfolding links_consistent_def removeChild_single state_of.simps
    using assms(2) rel dis
    by (auto simp add: removeChild_one_links)
qed

end
